theory Spec2Isabelle
  imports Main "HOL-Library.Sublist"
begin

section \<open>Text primitives of the scripts\<close>

text \<open>
  A Python \<open>str\<close> is modelled as a \<open>string\<close>: a list of 8-bit characters, each standing
  for one code point up to U+00FF. The scripts compare characters with the backslash,
  the single quote and the semicolon, and trim with \<open>str.strip()\<close>.
\<close>

definition backslash :: char where
  "backslash = CHR 0x5C"

definition quote :: char where
  "quote = CHR 0x27"

definition semicolon :: char where
  "semicolon = CHR 0x3B"

text \<open>
  \<open>str.isspace\<close> on one character, for the code points below 256: TAB, LF, VT, FF, CR,
  the separators FS, GS, RS, US, the space, NEL (0x85) and the no-break space (0xA0).
\<close>

definition isspace :: "char \<Rightarrow> bool" where
  "isspace c = (of_char c \<in> {9, 10, 11, 12, 13, 28, 29, 30, 31, 32, 133, 160 :: nat})"

definition lstrip :: "string \<Rightarrow> string" where
  "lstrip s = dropWhile isspace s"

definition rstrip :: "string \<Rightarrow> string" where
  "rstrip s = rev (dropWhile isspace (rev s))"

text \<open>\<open>s.strip()\<close>: leading and trailing whitespace removed.\<close>

definition strip :: "string \<Rightarrow> string" where
  "strip s = rstrip (lstrip s)"

text \<open>\<open>s.startswith(p)\<close>.\<close>

definition startswith :: "string \<Rightarrow> string \<Rightarrow> bool" where
  "startswith s p = prefix p s"

text \<open>\<open>s.endswith(p)\<close>.\<close>

definition endswith :: "string \<Rightarrow> string \<Rightarrow> bool" where
  "endswith s p = suffix p s"

text \<open>\<open>sub in s\<close>: \<open>sub\<close> occurs in \<open>s\<close> as a contiguous substring.\<close>

fun contains :: "string \<Rightarrow> string \<Rightarrow> bool" where
  "contains [] sub = (sub = [])"
| "contains (c # cs) sub = (prefix sub (c # cs) \<or> contains cs sub)"

text \<open>
  \<open>s.count(sub)\<close>: the number of non-overlapping occurrences of \<open>sub\<close> in \<open>s\<close>, found
  from left to right; the empty \<open>sub\<close> is counted \<open>len(s) + 1\<close> times.
\<close>

function count_str :: "string \<Rightarrow> string \<Rightarrow> nat" where
  "count_str s sub =
     (if sub = [] then length s + 1
      else if length s < length sub then 0
      else if take (length sub) s = sub then 1 + count_str (drop (length sub) s) sub
      else count_str (tl s) sub)"
  by pat_completeness auto
termination
proof (relation "measure (\<lambda>(s, sub). length s)", goal_cases)
  case 1
  show ?case by simp
next
  case (2 s sub)
  then have "0 < length sub" and "length sub \<le> length s" by simp_all
  then have "length s - length sub < length s" and "length s - 1 < length s" by linarith+
  then show ?case by simp
next
  case (3 s sub)
  then have "0 < length sub" and "length sub \<le> length s" by simp_all
  then have "length s - length sub < length s" and "length s - 1 < length s" by linarith+
  then show ?case by simp
qed

declare count_str.simps [simp del]

text \<open>\<open>str(n)\<close> for an integer: decimal digits, with a minus sign below zero.\<close>

definition digit_char :: "nat \<Rightarrow> char" where
  "digit_char d = char_of (48 + d)"

fun str_nat :: "nat \<Rightarrow> string" where
  "str_nat n = (if n < 10 then [digit_char n] else str_nat (n div 10) @ [digit_char (n mod 10)])"

declare str_nat.simps [simp del]

definition str_int :: "int \<Rightarrow> string" where
  "str_int i = (if i < 0 then CHR ''-'' # str_nat (nat (- i)) else str_nat (nat i))"

text \<open>\<open>sep.join(xs)\<close>.\<close>

fun join :: "string \<Rightarrow> string list \<Rightarrow> string" where
  "join sep [] = []"
| "join sep [x] = x"
| "join sep (x # y # ys) = x @ sep @ join sep (y # ys)"

section \<open>The statement splitter\<close>

text \<open>
  The loop of \<open>validate_sql_file\<close> in \<open>validate_migration_improved.py\<close> (lines 16 to 37)
  and of \<open>analyze_insert_statements\<close> in \<open>test_d1_inserts.py\<close> (lines 21 to 43) keeps four
  variables; one iteration of the loop body is one step on this record.
\<close>

record split_state =
  statements :: "string list"
  current_statement :: string
  in_string :: bool
  escape_next :: bool

definition split_init :: split_state where
  "split_init = \<lparr>statements = [], current_statement = [], in_string = False, escape_next = False\<rparr>"

text \<open>
  The body of the loop in \<open>validate_migration_improved.py\<close>: the character is appended
  first; an escaped character and a backslash end the iteration (\<open>continue\<close>); a quote
  toggles \<open>in_string\<close>; a semicolon outside a literal appends the trimmed buffer to
  \<open>statements\<close> and resets it.
\<close>

definition split_step :: "split_state \<Rightarrow> char \<Rightarrow> split_state" where
  "split_step s char =
     (let s1 = s\<lparr>current_statement := current_statement s @ [char]\<rparr> in
      if escape_next s1 then s1\<lparr>escape_next := False\<rparr>
      else if char = backslash then s1\<lparr>escape_next := True\<rparr>
      else
        let s2 = (if char = quote \<and> \<not> escape_next s1
                  then s1\<lparr>in_string := \<not> in_string s1\<rparr> else s1) in
        if char = semicolon \<and> \<not> in_string s2
        then s2\<lparr>statements := statements s2 @ [strip (current_statement s2)],
                current_statement := []\<rparr>
        else s2)"

text \<open>
  The body of the loop in \<open>test_d1_inserts.py\<close>: the same, but the trimmed buffer is
  appended only when it is not empty.
\<close>

definition split_step_d1 :: "split_state \<Rightarrow> char \<Rightarrow> split_state" where
  "split_step_d1 s char =
     (let s1 = s\<lparr>current_statement := current_statement s @ [char]\<rparr> in
      if escape_next s1 then s1\<lparr>escape_next := False\<rparr>
      else if char = backslash then s1\<lparr>escape_next := True\<rparr>
      else
        let s2 = (if char = quote \<and> \<not> escape_next s1
                  then s1\<lparr>in_string := \<not> in_string s1\<rparr> else s1) in
        if char = semicolon \<and> \<not> in_string s2
        then (let s3 = (if strip (current_statement s2) \<noteq> []
                        then s2\<lparr>statements := statements s2 @ [strip (current_statement s2)]\<rparr>
                        else s2)
              in s3\<lparr>current_statement := []\<rparr>)
        else s2)"

text \<open>The whole loop, \<open>for char in content\<close>, from a given state.\<close>

definition split_from :: "split_state \<Rightarrow> string \<Rightarrow> split_state" where
  "split_from s content = foldl split_step s content"

definition split_scan :: "string \<Rightarrow> split_state" where
  "split_scan content = split_from split_init content"

definition split_scan_d1 :: "string \<Rightarrow> split_state" where
  "split_scan_d1 content = foldl split_step_d1 split_init content"

text \<open>
  The statement list the validators go on with: \<open>statements\<close> as the loop leaves it.
  Nothing after the loop looks at \<open>current_statement\<close> again.
\<close>

definition split_statements :: "string \<Rightarrow> string list" where
  "split_statements content = statements (split_scan content)"

definition split_statements_d1 :: "string \<Rightarrow> string list" where
  "split_statements_d1 content = statements (split_scan_d1 content)"

text \<open>
  What is left in \<open>current_statement\<close> when the loop has read the whole input.
\<close>

definition trailing_buffer :: "string \<Rightarrow> string" where
  "trailing_buffer content = current_statement (split_scan content)"

section \<open>The structural validator\<close>

text \<open>
  The second loop of \<open>validate_sql_file\<close> in \<open>validate_migration_improved.py\<close> (lines 40
  to 91). The messages are the f-strings of the source.
\<close>

definition msg_not_insert :: "nat \<Rightarrow> string" where
  "msg_not_insert stmt_num = ''Statement '' @ str_nat stmt_num @ '': Not an INSERT statement''"

definition msg_invalid_syntax :: "nat \<Rightarrow> string" where
  "msg_invalid_syntax stmt_num = ''Statement '' @ str_nat stmt_num @ '': Invalid INSERT syntax''"

definition msg_missing_values :: "nat \<Rightarrow> string" where
  "msg_missing_values stmt_num = ''Statement '' @ str_nat stmt_num @ '': Missing VALUES clause''"

definition msg_parens :: "nat \<Rightarrow> nat \<Rightarrow> nat \<Rightarrow> string" where
  "msg_parens stmt_num open_parens close_parens =
     ''Statement '' @ str_nat stmt_num @ '': Unbalanced parentheses ('' @ str_nat open_parens
       @ '' open, '' @ str_nat close_parens @ '' close)''"

definition msg_quotes :: "nat \<Rightarrow> nat \<Rightarrow> string" where
  "msg_quotes stmt_num real_quotes =
     ''Statement '' @ str_nat stmt_num @ '': Unbalanced quotes ('' @ str_nat real_quotes
       @ '' quotes)''"

definition msg_empty_fields :: "nat \<Rightarrow> string" where
  "msg_empty_fields stmt_num =
     ''Statement '' @ str_nat stmt_num @ '': Contains multiple empty fields''"

definition msg_one_values :: "nat \<Rightarrow> string" where
  "msg_one_values stmt_num =
     ''Statement '' @ str_nat stmt_num @ '': Should have exactly one VALUES clause''"

text \<open>The text \<open>'', '', '', ''\<close> of line 86: four empty literals separated by comma and space.\<close>

definition four_empty_fields :: string where
  "four_empty_fields =
     [quote, quote] @ '', '' @ [quote, quote] @ '', '' @ [quote, quote] @ '', '' @ [quote, quote]"

text \<open>
  The loop of lines 67 to 77: the indices of the quotes that no backslash escapes.
  The arguments are the flag \<open>escape_next\<close> (here \<open>esc\<close>), the index \<open>i\<close>, the rest of the statement and
  \<open>quote_positions\<close>.
\<close>

fun quote_scan :: "bool \<Rightarrow> nat \<Rightarrow> string \<Rightarrow> nat list \<Rightarrow> nat list" where
  "quote_scan esc i [] quote_positions = quote_positions"
| "quote_scan esc i (char # rest) quote_positions =
     (if esc then quote_scan False (i + 1) rest quote_positions
      else if char = backslash then quote_scan True (i + 1) rest quote_positions
      else if char = quote then quote_scan False (i + 1) rest (quote_positions @ [i])
      else quote_scan False (i + 1) rest quote_positions)"

definition real_quotes :: "string \<Rightarrow> nat" where
  "real_quotes statement = length (quote_scan False 0 statement [])"

text \<open>
  The checks of one statement that is not blank (lines 46 to 91), on the list \<open>errors\<close>
  collected so far. A statement that does not start with \<open>INSERT INTO videos\<close> gets one
  message and the iteration ends (\<open>continue\<close>); every other check appends its message and
  goes on.
\<close>

definition validate_statement :: "nat \<Rightarrow> string \<Rightarrow> string list \<Rightarrow> string list" where
  "validate_statement stmt_num statement errors =
     (if \<not> startswith (strip statement) ''INSERT INTO videos''
      then errors @ [msg_not_insert stmt_num]
      else
        let errors1 = (if \<not> startswith (strip statement) ''INSERT INTO videos (''
                       then errors @ [msg_invalid_syntax stmt_num] else errors);
            errors2 = (if \<not> contains statement ''VALUES (''
                       then errors1 @ [msg_missing_values stmt_num] else errors1);
            open_parens = count_str statement ''('';
            close_parens = count_str statement '')'';
            errors3 = (if open_parens \<noteq> close_parens
                       then errors2 @ [msg_parens stmt_num open_parens close_parens]
                       else errors2);
            errors4 = (if real_quotes statement mod 2 \<noteq> 0
                       then errors3 @ [msg_quotes stmt_num (real_quotes statement)]
                       else errors3);
            errors5 = (if contains statement four_empty_fields
                       then errors4 @ [msg_empty_fields stmt_num] else errors4);
            errors6 = (if count_str statement ''VALUES'' \<noteq> 1
                       then errors5 @ [msg_one_values stmt_num] else errors5)
        in errors6)"

text \<open>
  The loop \<open>for stmt_num, statement in enumerate(statements, 1)\<close>: a blank statement is
  passed over, every other one is counted and checked.
\<close>

fun validate_loop :: "nat \<Rightarrow> string list \<Rightarrow> nat \<times> string list \<Rightarrow> nat \<times> string list" where
  "validate_loop stmt_num [] (statement_count, errors) = (statement_count, errors)"
| "validate_loop stmt_num (statement # rest) (statement_count, errors) =
     (if strip statement = [] then validate_loop (stmt_num + 1) rest (statement_count, errors)
      else validate_loop (stmt_num + 1) rest
             (statement_count + 1, validate_statement stmt_num statement errors))"

text \<open>\<open>validate_sql_file\<close> from the text that \<open>f.read()\<close> returned.\<close>

definition validate_content :: "string \<Rightarrow> nat \<times> string list" where
  "validate_content content = validate_loop 1 (split_statements content) (0, [])"


section \<open>Reading the input file\<close>

text \<open>
  \<open>open(path, 'r')\<close> either raises or gives the text of the file. An exception that
  nothing catches ends the process with a traceback.
\<close>

datatype py_exception =
  FileNotFoundError | PermissionError | IsADirectoryError | KeyError | ValueError

datatype 'a opened = Raises py_exception | Reads 'a

text \<open>
  \<open>validate_sql_file\<close> of \<open>validate_migration_improved.py\<close>: the \<open>with open\<close> of lines 11
  and 12 stands outside any \<open>try\<close>.
\<close>

definition validate_sql_file :: "string opened \<Rightarrow> py_exception + nat \<times> string list" where
  "validate_sql_file f =
     (case f of Raises e \<Rightarrow> Inl e | Reads content \<Rightarrow> Inr (validate_content content))"

text \<open>
  \<open>validate_sql_file\<close> of \<open>validate_fixed_sql.py\<close>. The file is read line by line
  (lines 16 to 34); the argument of \<open>Reads\<close> is the list of its lines.
\<close>

fun fixed_validate_lines ::
  "nat \<Rightarrow> string list \<Rightarrow> nat \<times> string list \<Rightarrow> nat \<times> string list" where
  "fixed_validate_lines line_num [] (line_count, errors) = (line_count, errors)"
| "fixed_validate_lines line_num (raw # rest) (line_count, errors) =
     (let line = strip raw in
      if line = [] then fixed_validate_lines (line_num + 1) rest (line_count + 1, errors)
      else if \<not> startswith line ''INSERT INTO videos''
      then fixed_validate_lines (line_num + 1) rest
             (line_count + 1, errors @ [''Line '' @ str_nat line_num @ '': Not an INSERT statement''])
      else
        let errors1 = (if \<not> endswith line '';''
                       then errors @ [''Line '' @ str_nat line_num @ '': Missing semicolon'']
                       else errors);
            errors2 = (if count_str line [quote] mod 2 \<noteq> 0
                       then errors1 @ [''Line '' @ str_nat line_num @ '': Unbalanced quotes'']
                       else errors1)
        in fixed_validate_lines (line_num + 1) rest (line_count + 1, errors2))"

text \<open>
  The \<open>try\<close> of lines 14 to 37 catches \<open>FileNotFoundError\<close> and nothing else; when
  \<open>open\<close> raises it, \<open>line_count\<close> is still 0 and \<open>errors\<close> still empty.
\<close>

definition fixed_validate_sql_file ::
  "string \<Rightarrow> string list opened \<Rightarrow> py_exception + nat \<times> string list" where
  "fixed_validate_sql_file file_path f =
     (case f of
        Raises e \<Rightarrow>
          (if e = FileNotFoundError then Inr (0, [''File not found: '' @ file_path]) else Inl e)
      | Reads lines \<Rightarrow> Inr (fixed_validate_lines 1 lines (0, [])))"

text \<open>
  \<open>validate_sql_file\<close> of \<open>validate_migration.py\<close>: the same loop over the lines with one
  more check, for the text \<open>'', ''\<close> (lines 9 to 33), and no \<open>try\<close> around it.
\<close>

definition two_empty_fields :: string where
  "two_empty_fields = [quote, quote] @ '', '' @ [quote, quote]"

fun migration_validate_lines ::
  "nat \<Rightarrow> string list \<Rightarrow> nat \<times> string list \<Rightarrow> nat \<times> string list" where
  "migration_validate_lines line_num [] (line_count, errors) = (line_count, errors)"
| "migration_validate_lines line_num (raw # rest) (line_count, errors) =
     (let line = strip raw in
      if line = [] then migration_validate_lines (line_num + 1) rest (line_count + 1, errors)
      else if \<not> startswith line ''INSERT INTO videos''
      then migration_validate_lines (line_num + 1) rest
             (line_count + 1, errors @ [''Line '' @ str_nat line_num @ '': Not an INSERT statement''])
      else
        let errors1 = (if \<not> endswith line '';''
                       then errors @ [''Line '' @ str_nat line_num @ '': Missing semicolon'']
                       else errors);
            errors2 = (if contains line two_empty_fields
                       then errors1 @ [''Line '' @ str_nat line_num
                                         @ '': Contains empty critical fields'']
                       else errors1);
            quote_count = count_str line [quote];
            errors3 = (if quote_count mod 2 \<noteq> 0
                       then errors2 @ [''Line '' @ str_nat line_num @ '': Unbalanced quotes'']
                       else errors2)
        in migration_validate_lines (line_num + 1) rest (line_count + 1, errors3))"

definition migration_validate_sql_file ::
  "string list opened \<Rightarrow> py_exception + nat \<times> string list" where
  "migration_validate_sql_file f =
     (case f of
        Raises e \<Rightarrow> Inl e
      | Reads lines \<Rightarrow> Inr (migration_validate_lines 1 lines (0, [])))"

text \<open>
  The lines \<open>for line in f\<close> yields for a file with a given text, opened in text mode:
  \<open>\r\n\<close> and a lone \<open>\r\<close> are read as \<open>\n\<close>, and a line ends after each \<open>\n\<close> and at the end
  of the text.
\<close>

definition line_feed :: char where
  "line_feed = CHR 0x0A"

definition carriage_return :: char where
  "carriage_return = CHR 0x0D"

fun universal_newlines :: "string \<Rightarrow> string" where
  "universal_newlines [] = []"
| "universal_newlines [c] = (if c = carriage_return then [line_feed] else [c])"
| "universal_newlines (c # d # ds) =
     (if c = carriage_return \<and> d = line_feed then line_feed # universal_newlines ds
      else if c = carriage_return then line_feed # universal_newlines (d # ds)
      else c # universal_newlines (d # ds))"

fun lines_from :: "string \<Rightarrow> string \<Rightarrow> string list" where
  "lines_from cur [] = (if cur = [] then [] else [cur])"
| "lines_from cur (c # cs) =
     (if c = line_feed then (cur @ [c]) # lines_from [] cs else lines_from (cur @ [c]) cs)"

definition file_lines :: "string \<Rightarrow> string list" where
  "file_lines content = lines_from [] (universal_newlines content)"

text \<open>
  \<open>fix_sql_file\<close> of \<open>fix_sql_semicolons.py\<close> (lines 6 to 27), which writes the file
  \<open>validate_fixed_sql.py\<close> reads: every line is trimmed at its end, a line that starts
  with \<open>INSERT INTO videos\<close> and does not end with a semicolon gets one, and every line is
  written back with a \<open>\n\<close>.
\<close>

definition fix_line :: "string \<Rightarrow> string" where
  "fix_line raw =
     (let line = rstrip raw in
      if startswith (strip line) ''INSERT INTO videos''
      then (if \<not> endswith (strip line) '';'' then rstrip line @ '';'' else line)
      else line)"

definition fix_sql_text :: "string \<Rightarrow> string" where
  "fix_sql_text content = concat (map (\<lambda>raw. fix_line raw @ ''\<newline>'') (file_lines content))"

section \<open>Generating the statements\<close>

text \<open>
  The values of a row (\<open>Any\<close> in the source). A float is kept as the two things the
  scripts observe of it, whether it is non-zero and the text \<open>str\<close> gives it; any other
  object (bytes, for one) likewise as its truth value and its \<open>str\<close> text.
\<close>

datatype pyval =
  PNone
| PBool bool
| PInt int
| PFloat bool string
| PStr string
| PObject bool string

text \<open>The truth value of a value, as \<open>not v\<close> and \<open>v and ...\<close> test it.\<close>

fun truthy :: "pyval \<Rightarrow> bool" where
  "truthy PNone = False"
| "truthy (PBool b) = b"
| "truthy (PInt i) = (i \<noteq> 0)"
| "truthy (PFloat nonzero text) = nonzero"
| "truthy (PStr s) = (s \<noteq> [])"
| "truthy (PObject t text) = t"

text \<open>\<open>isinstance(v, int)\<close>; a \<open>bool\<close> is an \<open>int\<close>.\<close>

fun is_int :: "pyval \<Rightarrow> bool" where
  "is_int (PBool b) = True"
| "is_int (PInt i) = True"
| "is_int v = False"

fun is_float :: "pyval \<Rightarrow> bool" where
  "is_float (PFloat nonzero text) = True"
| "is_float v = False"

text \<open>\<open>str(v)\<close>.\<close>

fun py_str :: "pyval \<Rightarrow> string" where
  "py_str PNone = ''None''"
| "py_str (PBool b) = (if b then ''True'' else ''False'')"
| "py_str (PInt i) = str_int i"
| "py_str (PFloat nonzero text) = text"
| "py_str (PStr s) = s"
| "py_str (PObject t text) = text"

text \<open>A row is a \<open>dict\<close> with string keys, in insertion order.\<close>

type_synonym row = "(string \<times> pyval) list"

text \<open>\<open>row.get(key, default)\<close>; \<open>row.get(key)\<close> is \<open>dict_get row key PNone\<close>.\<close>

definition dict_get :: "row \<Rightarrow> string \<Rightarrow> pyval \<Rightarrow> pyval" where
  "dict_get row key dflt = (case map_of row key of None \<Rightarrow> dflt | Some v \<Rightarrow> v)"

text \<open>\<open>row[key]\<close>, which raises \<open>KeyError\<close> for a missing key.\<close>

definition dict_item :: "row \<Rightarrow> string \<Rightarrow> py_exception + pyval" where
  "dict_item row key = (case map_of row key of None \<Rightarrow> Inl KeyError | Some v \<Rightarrow> Inr v)"

text \<open>\<open>s.replace(old, new)\<close> for a single character \<open>old\<close>.\<close>

definition replace_char :: "string \<Rightarrow> char \<Rightarrow> string \<Rightarrow> string" where
  "replace_char s old new = concat (map (\<lambda>c. if c = old then new else [c]) s)"

text \<open>\<open>escape_sql_string\<close> of \<open>migrate_videos_to_d1.py\<close> (lines 46 to 53).\<close>

definition escape_sql_string :: "pyval \<Rightarrow> string" where
  "escape_sql_string v =
     (if v = PNone then ''NULL''
      else if is_int v \<or> is_float v then py_str v
      else [quote] @ replace_char (py_str v) quote [quote, quote] @ [quote])"

text \<open>\<open>generate_insert_statement\<close> (lines 55 to 59).\<close>

definition generate_insert_statement :: "row \<Rightarrow> string" where
  "generate_insert_statement row =
     (let columns = join '', '' (map fst row);
          vals = join '', '' (map (\<lambda>(k, v). escape_sql_string v) row)
      in ''INSERT INTO videos ('' @ columns @ '') VALUES ('' @ vals @ '');'')"

text \<open>\<open>validate_row\<close> (lines 14 to 26): the loop over \<open>numeric_fields\<close>, then the function.\<close>

fun check_numeric_fields :: "row \<Rightarrow> string list \<Rightarrow> bool \<times> string" where
  "check_numeric_fields row [] = (True, [])"
| "check_numeric_fields row (field # rest) =
     (if truthy (dict_get row field PNone)
         \<and> \<not> (is_int (dict_get row field PNone) \<or> dict_get row field PNone = PNone)
      then (False, ''Invalid type for '' @ field)
      else check_numeric_fields row rest)"

definition numeric_fields :: "string list" where
  "numeric_fields = [''duration_seconds'', ''view_count'', ''like_count'', ''comment_count'']"

definition validate_row :: "row \<Rightarrow> bool \<times> string" where
  "validate_row row =
     (if \<not> truthy (dict_get row ''video_id'' PNone) then (False, ''Missing video_id'')
      else check_numeric_fields row numeric_fields)"

text \<open>\<open>transform_row\<close> (lines 28 to 44).\<close>

definition transform_row :: "row \<Rightarrow> py_exception + row" where
  "transform_row row =
     (case dict_item row ''video_id'' of
        Inl e \<Rightarrow> Inl e
      | Inr video_id \<Rightarrow> Inr
          [(''video_id'', video_id),
           (''cleaned_title'', dict_get row ''cleaned_title'' (PStr [])),
           (''cleaned_description'', dict_get row ''cleaned_description'' (PStr [])),
           (''channel_name'', dict_get row ''channel_name'' (PStr [])),
           (''channel_id'', dict_get row ''channel_id'' (PStr [])),
           (''published_at'', dict_get row ''published_at'' PNone),
           (''duration_seconds'', dict_get row ''duration_seconds'' PNone),
           (''view_count'', dict_get row ''view_count'' PNone),
           (''like_count'', dict_get row ''like_count'' PNone),
           (''comment_count'', dict_get row ''comment_count'' PNone),
           (''is_indexed'', dict_get row ''is_indexed'' (PInt 0)),
           (''created_at'', dict_get row ''created_at'' PNone)])"

section \<open>The migration scripts and their exit codes\<close>

subsection \<open>\<open>migrate_videos_to_d1.py\<close>\<close>

text \<open>
  \<open>_write_batch\<close> (lines 124 to 128) opens the output file outside any \<open>try\<close>. The first
  argument is what this call meets: \<open>Some e\<close> when opening or writing raises \<open>e\<close> (the
  directory is missing, the file cannot be written), \<open>None\<close> when the call goes through.
  Then the batch, joined by newlines and ended by one, is appended to the output file
  when that exists and starts it otherwise; the file is \<open>None\<close> while it does not exist.
\<close>

definition write_batch ::
  "py_exception option \<Rightarrow> string option \<Rightarrow> string list \<Rightarrow> py_exception + string option" where
  "write_batch raised file stmts =
     (case raised of
        Some e \<Rightarrow> Inl e
      | None \<Rightarrow>
          Inr (Some ((case file of None \<Rightarrow> [] | Some old \<Rightarrow> old)
                       @ join ''\<newline>'' stmts @ ''\<newline>'')))"

text \<open>
  The loop \<open>for row in cursor\<close> of \<open>migrate\<close> (lines 90 to 114) on the rows the query
  returned. The state is \<open>successful\<close>, \<open>failed\<close>, the pending \<open>statements\<close>,
  \<open>self.errors\<close>, the output file and the number of calls of \<open>_write_batch\<close> made so far;
  \<open>fs k\<close> is what the call number \<open>k\<close> of \<open>_write_batch\<close> meets, counted from 0. An
  exception of \<open>transform_row\<close> or \<open>_write_batch\<close> leaves the loop and \<open>migrate\<close>.
\<close>

type_synonym migrate_state =
  "nat \<times> nat \<times> string list \<times> (pyval \<times> string) list \<times> string option \<times> nat"

fun migrate_loop ::
  "(nat \<Rightarrow> py_exception option) \<Rightarrow> int \<Rightarrow> row list \<Rightarrow> migrate_state
     \<Rightarrow> py_exception + migrate_state" where
  "migrate_loop fs batch_size [] state = Inr state"
| "migrate_loop fs batch_size (row_dict # rest) (successful, failed, stmts, errors, file, writes) =
     (case validate_row row_dict of
        (False, error_msg) \<Rightarrow>
          migrate_loop fs batch_size rest
            (successful, failed + 1, stmts,
             errors @ [(dict_get row_dict ''video_id'' (PStr ''UNKNOWN''), error_msg)],
             file, writes)
      | (True, error_msg) \<Rightarrow>
          (case transform_row row_dict of
             Inl e \<Rightarrow> Inl e
           | Inr transformed \<Rightarrow>
               (let sql = generate_insert_statement transformed;
                    stmts1 = stmts @ [sql]
                in if int (length stmts1) \<ge> batch_size
                   then (case write_batch (fs writes) file stmts1 of
                           Inl e \<Rightarrow> Inl e
                         | Inr file1 \<Rightarrow>
                             migrate_loop fs batch_size rest
                               (successful + 1, failed, [], errors, file1, writes + 1))
                   else migrate_loop fs batch_size rest
                          (successful + 1, failed, stmts1, errors, file, writes))))"

text \<open>
  \<open>migrate\<close> (lines 61 to 122): connecting to the source database and running the query
  either raises or gives the rows; after the loop the remaining statements are
  written.
\<close>

definition migrate ::
  "(nat \<Rightarrow> py_exception option) \<Rightarrow> int \<Rightarrow> row list opened \<Rightarrow> string option
     \<Rightarrow> py_exception + (nat \<times> nat) \<times> (pyval \<times> string) list \<times> string option" where
  "migrate fs batch_size cursor file =
     (case cursor of
        Raises e \<Rightarrow> Inl e
      | Reads rows \<Rightarrow>
          (case migrate_loop fs batch_size rows (0, 0, [], [], file, 0) of
             Inl e \<Rightarrow> Inl e
           | Inr (successful, failed, stmts, errors, file1, writes) \<Rightarrow>
               (if stmts \<noteq> []
                then (case write_batch (fs writes) file1 stmts of
                        Inl e \<Rightarrow> Inl e
                      | Inr file2 \<Rightarrow> Inr ((successful, failed), errors, file2))
                else Inr ((successful, failed), errors, file1))))"

text \<open>
  The main block (lines 144 to 162) with \<open>batch_size=100\<close>: \<open>sys.exit(1 if failed > 0
  else 0)\<close>. Nothing there catches an exception of \<open>migrate\<close>, and an exception nothing
  catches ends the process with status 1.
\<close>

definition d1_exit_code ::
  "(nat \<Rightarrow> py_exception option) \<Rightarrow> row list opened \<Rightarrow> string option \<Rightarrow> int" where
  "d1_exit_code fs cursor file =
     (case migrate fs 100 cursor file of
        Inl e \<Rightarrow> 1
      | Inr ((successful, failed), errors, file1) \<Rightarrow> (if failed > 0 then 1 else 0))"

subsection \<open>\<open>execute_migration_batches.py\<close>\<close>

text \<open>\<open>s.split(sep)\<close> for a separator that is not empty; \<open>cur\<close> is the piece being read.\<close>

function split_aux :: "string \<Rightarrow> string \<Rightarrow> string \<Rightarrow> string list" where
  "split_aux sep cur s =
     (if s = [] then [cur]
      else if sep \<noteq> [] \<and> prefix sep s then cur # split_aux sep [] (drop (length sep) s)
      else split_aux sep (cur @ [hd s]) (tl s))"
  by pat_completeness auto
termination
proof (relation "measure (\<lambda>(sep, cur, s). length s)", goal_cases)
  case 1
  show ?case by simp
next
  case (2 sep cur s)
  then have "0 < length sep" and "0 < length s" by simp_all
  then have "length s - length sep < length s" by linarith
  then show ?case by simp
next
  case (3 sep cur s)
  then have "0 < length s" by simp
  then have "length s - 1 < length s" by linarith
  then show ?case by simp
qed

declare split_aux.simps [simp del]

definition py_split :: "string \<Rightarrow> string \<Rightarrow> string list" where
  "py_split s sep = split_aux sep [] s"

text \<open>
  What writing the temporary file and running \<open>wrangler\<close> does for one batch: the
  command returns with a code, or something in the \<open>try\<close> raises.
\<close>

datatype run_result = Returncode int | RunRaises

text \<open>\<open>execute_batch\<close> (lines 8 to 37): \<open>True\<close> exactly when the command returned 0.\<close>

definition execute_batch :: "run_result \<Rightarrow> bool" where
  "execute_batch result = (case result of Returncode rc \<Rightarrow> rc = 0 | RunRaises \<Rightarrow> False)"

text \<open>
  The loop \<open>for i in range(0, len(statements), batch_size)\<close> of \<open>main\<close> (lines 58 to 67)
  with \<open>batch_size = 50\<close>; \<open>wrangler batch_sql batch_num\<close> is the result of running the
  batch. The loop is left at the first batch that fails (\<open>break\<close>).
\<close>

function batch_loop ::
  "(string \<Rightarrow> nat \<Rightarrow> run_result) \<Rightarrow> string list \<Rightarrow> nat \<Rightarrow> nat \<Rightarrow> nat" where
  "batch_loop wrangler stmts i success_count =
     (if i < length stmts then
        (let batch_num = i div 50 + 1;
             batch = take 50 (drop i stmts);
             batch_sql = join ''\<newline>'' batch
         in if execute_batch (wrangler batch_sql batch_num)
            then batch_loop wrangler stmts (i + 50) (success_count + 1)
            else success_count)
      else success_count)"
  by pat_completeness auto
termination
  by (relation "measure (\<lambda>(wrangler, stmts, i, success_count). length stmts - i)") auto

declare batch_loop.simps [simp del]

text \<open>The statements of lines 45 and 48.\<close>

definition batch_statements :: "string \<Rightarrow> string list" where
  "batch_statements content =
     map (\<lambda>stmt. ''INSERT OR IGNORE INTO videos'' @ stmt)
       (map strip (filter (\<lambda>stmt. strip stmt \<noteq> [])
          (py_split content ''INSERT OR IGNORE INTO videos'')))"

text \<open>\<open>main\<close> (lines 39 to 79) from the text of the file, and the exit code of line 83.\<close>

definition batches_main :: "(string \<Rightarrow> nat \<Rightarrow> run_result) \<Rightarrow> string \<Rightarrow> bool" where
  "batches_main wrangler content =
     (let stmts = batch_statements content;
          total_batches = (length stmts + 50 - 1) div 50;
          success_count = batch_loop wrangler stmts 0 0
      in success_count = total_batches)"

definition batches_exit_code :: "(string \<Rightarrow> nat \<Rightarrow> run_result) \<Rightarrow> string opened \<Rightarrow> int" where
  "batches_exit_code wrangler f =
     (case f of Raises e \<Rightarrow> 1
      | Reads content \<Rightarrow> (if batches_main wrangler content then 0 else 1))"

subsection \<open>\<open>migrate_videos_rest_api.py\<close>\<close>

text \<open>
  The counters \<open>self.stats\<close>. The messages collected in \<open>self.errors\<close> are written to the
  log and to a report; no counter and no exit code reads them, and the model leaves
  them out.
\<close>

record stats =
  total :: nat
  successful :: nat
  failed :: nat
  skipped :: nat

text \<open>\<open>validate_row\<close> (lines 42 to 54), its verdict without the message.\<close>

fun rest_check_numeric_fields :: "row \<Rightarrow> string list \<Rightarrow> bool" where
  "rest_check_numeric_fields row [] = True"
| "rest_check_numeric_fields row (field # rest) =
     (let v = dict_get row field PNone in
      if v \<noteq> PNone \<and> \<not> (is_int v \<or> is_float v) then False
      else rest_check_numeric_fields row rest)"

definition rest_validate_row :: "row \<Rightarrow> bool" where
  "rest_validate_row row =
     (if \<not> truthy (dict_get row ''video_id'' PNone) then False
      else rest_check_numeric_fields row numeric_fields)"

text \<open>
  What the remote endpoint does for one video: \<open>check_video_exists\<close> never raises and
  answers \<open>True\<close> or \<open>False\<close>; the \<open>POST\<close> returns a status code or raises. A video comes
  with the answers the endpoint gives for it. \<open>transform_row\<close> only shapes the body of
  the request, and it cannot raise for a row that \<open>validate_row\<close> has passed, whose
  \<open>video_id\<close> is present.
\<close>

datatype post_result = Status nat | PostRaises

type_synonym video = "row \<times> bool \<times> post_result"

text \<open>
  \<open>insert_video_batch\<close> (lines 101 to 142): the loop over the videos with its two local
  counters and \<open>self.stats['skipped']\<close>.
\<close>

fun insert_video_batch :: "video list \<Rightarrow> nat \<times> nat \<times> nat \<Rightarrow> nat \<times> nat \<times> nat" where
  "insert_video_batch [] (succ, fail, skip) = (succ, fail, skip)"
| "insert_video_batch ((row, exists_already, response) # rest) (succ, fail, skip) =
     (if exists_already then insert_video_batch rest (succ, fail, skip + 1)
      else case response of
        Status code \<Rightarrow>
          (if code \<in> {200, 201} then insert_video_batch rest (succ + 1, fail, skip)
           else insert_video_batch rest (succ, fail + 1, skip))
      | PostRaises \<Rightarrow> insert_video_batch rest (succ, fail + 1, skip))"

text \<open>
  The body of the loop over the batches in \<open>migrate\<close> (lines 199 to 220): every video of
  the batch is validated, the invalid ones counted as failed, the valid ones inserted.
\<close>

definition process_batch :: "video list \<Rightarrow> stats \<Rightarrow> stats" where
  "process_batch batch st =
     (let valid_videos = filter (\<lambda>(row, answers). rest_validate_row row) batch;
          st1 = st\<lparr>failed := failed st
                  + length (filter (\<lambda>(row, answers). \<not> rest_validate_row row) batch)\<rparr>
      in if valid_videos \<noteq> [] then
           (let (batch_successful, batch_failed, skip) =
                  insert_video_batch valid_videos (0, 0, skipped st1)
            in st1\<lparr>successful := successful st1 + batch_successful,
                   failed := failed st1 + batch_failed,
                   skipped := skip\<rparr>)
         else st1)"

text \<open>\<open>for i in range(0, len(videos), self.batch_size)\<close> for a positive batch size.\<close>

function rest_loop :: "nat \<Rightarrow> video list \<Rightarrow> nat \<Rightarrow> stats \<Rightarrow> stats" where
  "rest_loop batch_size videos i st =
     (if 0 < batch_size \<and> i < length videos
      then rest_loop batch_size videos (i + batch_size)
             (process_batch (take batch_size (drop i videos)) st)
      else st)"
  by pat_completeness auto
termination
  by (relation "measure (\<lambda>(batch_size, videos, i, st). length videos - i)") auto

declare rest_loop.simps [simp del]

text \<open>
  \<open>migrate\<close> (lines 179 to 226). \<open>range\<close> raises \<open>ValueError\<close> for the step 0 and is empty
  for a negative step.
\<close>

definition rest_migrate :: "int \<Rightarrow> video list \<Rightarrow> py_exception + stats" where
  "rest_migrate batch_size videos =
     (let st = \<lparr>total = length videos, successful = 0, failed = 0, skipped = 0\<rparr> in
      if videos = [] then Inr st
      else if batch_size = 0 then Inl ValueError
      else if batch_size < 0 then Inr st
      else Inr (rest_loop (nat batch_size) videos 0 st))"

text \<open>
  \<open>main\<close> (lines 296 to 324): exit code 1 when \<open>stats['failed'] > 0\<close> and for every
  exception, 0 otherwise. The videos are what \<open>fetch_videos_from_sqlite\<close> returned, if it
  did not raise. \<open>report_results\<close> writes its report only when \<open>self.errors\<close> is not
  empty, and an error is recorded with every increment of \<open>failed\<close>: should that write
  raise, the exit code is the 1 it would have been.
\<close>

definition rest_exit_code :: "int \<Rightarrow> video list opened \<Rightarrow> int" where
  "rest_exit_code batch_size fetched =
     (case fetched of
        Raises e \<Rightarrow> 1
      | Reads videos \<Rightarrow>
          (case rest_migrate batch_size videos of
             Inl e \<Rightarrow> 1
           | Inr st \<Rightarrow> (if failed st > 0 then 1 else 0)))"

section \<open>Notions used in the proofs\<close>

subsection \<open>The splitter\<close>

text \<open>
  \<open>closes s c\<close>: reading \<open>c\<close> in state \<open>s\<close> takes the branch of line 35 that appends a
  statement. \<open>fresh st buf\<close> is a state outside any literal with the given list and
  buffer. A state is \<open>resumable\<close> when reading its trimmed buffer again from a fresh
  state gives its flags back without closing a statement, and a string is a
  \<open>unit_statement\<close> when the loop, started outside a literal with only whitespace in
  the buffer, reads it as exactly that one statement.
\<close>

definition closes :: "split_state \<Rightarrow> char \<Rightarrow> bool" where
  "closes s c = (\<not> escape_next s \<and> \<not> in_string s \<and> c = semicolon)"

definition fresh :: "string list \<Rightarrow> string \<Rightarrow> split_state" where
  "fresh st buf =
     \<lparr>statements = st, current_statement = buf, in_string = False, escape_next = False\<rparr>"

definition resumable :: "split_state \<Rightarrow> bool" where
  "resumable s = (\<forall>st buf. split_from (fresh st buf) (lstrip (current_statement s)) =
     \<lparr>statements = st, current_statement = buf @ lstrip (current_statement s),
      in_string = in_string s, escape_next = escape_next s\<rparr>)"

definition unit_statement :: "string \<Rightarrow> bool" where
  "unit_statement e = (\<forall>st ws. (\<forall>a\<in>set ws. isspace a) \<longrightarrow>
     split_from (fresh st ws) e = fresh (st @ [e]) [])"

subsection \<open>The validator\<close>


subsection \<open>The REST migration\<close>

text \<open>A video of the REST migration succeeded: it is valid and was inserted or skipped.\<close>

fun video_ok :: "video \<Rightarrow> bool" where
  "video_ok (row, exists_already, response) =
     (rest_validate_row row \<and>
      (exists_already \<or> (case response of Status code \<Rightarrow> code \<in> {200, 201} | PostRaises \<Rightarrow> False)))"

subsection \<open>Outcomes used in the examples\<close>

text \<open>
  Every call of \<open>_write_batch\<close> goes through; every call raises \<open>FileNotFoundError\<close>, as
  when the directory of the output file is missing; the command returns 0 for every
  batch.
\<close>

definition no_failure :: "nat \<Rightarrow> py_exception option" where
  "no_failure k = None"

definition missing_directory :: "nat \<Rightarrow> py_exception option" where
  "missing_directory k = Some FileNotFoundError"

definition wrangler_accepts :: "string \<Rightarrow> nat \<Rightarrow> run_result" where
  "wrangler_accepts batch_sql batch_num = Returncode 0"

section \<open>Basic facts about the splitter\<close>

lemma isspace_simps [simp]:
  "\<not> isspace semicolon" "\<not> isspace quote" "\<not> isspace backslash"
  by (simp_all add: isspace_def semicolon_def quote_def backslash_def)

lemma char_distinct [simp]:
  "semicolon \<noteq> quote" "semicolon \<noteq> backslash" "quote \<noteq> backslash"
  "quote \<noteq> semicolon" "backslash \<noteq> semicolon" "backslash \<noteq> quote"
  by (simp_all add: semicolon_def quote_def backslash_def)

lemma split_from_Nil [simp]: "split_from s [] = s"
  by (simp add: split_from_def)

lemma split_from_Cons [simp]: "split_from s (c # cs) = split_from (split_step s c) cs"
  by (simp add: split_from_def)

lemma split_from_append: "split_from s (xs @ ys) = split_from (split_from s xs) ys"
  by (simp add: split_from_def)

lemma split_scan_snoc: "split_scan (xs @ [c]) = split_step (split_scan xs) c"
  by (simp add: split_scan_def split_from_def)


subsection \<open>Trimming\<close>


lemma lstrip_snoc:
  "lstrip (x @ [c]) = (if (\<forall>a\<in>set x. isspace a) \<and> isspace c then [] else lstrip x @ [c])"
  by (auto simp: lstrip_def dropWhile_append)

lemma lstrip_spaces_append: "\<forall>a\<in>set ws. isspace a \<Longrightarrow> lstrip (ws @ y) = lstrip y"
  by (simp add: lstrip_def dropWhile_append)

lemma lstrip_idem: "lstrip (lstrip x) = lstrip x"
  by (simp add: lstrip_def dropWhile_idem)

lemma lstrip_lstrip_snoc: "\<not> isspace c \<Longrightarrow> lstrip (lstrip x @ [c]) = lstrip x @ [c]"
  by (simp add: lstrip_snoc lstrip_idem)

lemma rstrip_snoc: "\<not> isspace c \<Longrightarrow> rstrip (x @ [c]) = x @ [c]"
  by (simp add: rstrip_def)

lemma strip_snoc: "\<not> isspace c \<Longrightarrow> strip (x @ [c]) = lstrip x @ [c]"
  by (simp add: strip_def lstrip_snoc rstrip_snoc)

lemma split_step_d1_eq: "split_step_d1 s c = split_step s c"
  by (simp add: split_step_d1_def split_step_def Let_def strip_snoc)

lemma split_statements_d1_eq: "split_statements_d1 content = split_statements content"
proof -
  have "split_step_d1 = split_step" by (intro ext) (rule split_step_d1_eq)
  then show ?thesis
    by (simp add: split_statements_d1_def split_statements_def split_scan_d1_def split_scan_def split_from_def)
qed


subsection \<open>One step of the loop\<close>



lemma split_step_closes:
  "closes s c \<Longrightarrow> split_step s c =
     \<lparr>statements = statements s @ [strip (current_statement s @ [c])],
      current_statement = [], in_string = False, escape_next = False\<rparr>"
  by (simp add: closes_def split_step_def Let_def)

lemma split_step_extends:
  assumes "\<not> closes s c"
  shows "statements (split_step s c) = statements s"
    and "current_statement (split_step s c) = current_statement s @ [c]"
  using assms by (auto simp: closes_def split_step_def Let_def)

lemma split_step_flags:
  assumes "in_string s = in_string t" "escape_next s = escape_next t"
  shows "in_string (split_step s c) = in_string (split_step t c)"
    and "escape_next (split_step s c) = escape_next (split_step t c)"
    and "closes s c = closes t c"
  using assms by (auto simp: closes_def split_step_def Let_def)

lemma split_step_space:
  assumes "isspace c" "\<not> escape_next s"
  shows "split_step s c = s\<lparr>current_statement := current_statement s @ [c]\<rparr>"
proof -
  from assms(1) have "c \<noteq> semicolon" "c \<noteq> quote" "c \<noteq> backslash" by auto
  with assms(2) show ?thesis by (simp add: split_step_def Let_def)
qed

lemma resumable_init: "resumable split_init"
  by (simp add: resumable_def split_init_def lstrip_def fresh_def)

lemma resumable_spaces:
  assumes "resumable s" "\<forall>a\<in>set (current_statement s). isspace a"
  shows "\<not> in_string s" "\<not> escape_next s"
proof -
  from assms(2) have "lstrip (current_statement s) = []" by (simp add: lstrip_def)
  with assms(1) have "fresh [] [] = \<lparr>statements = [], current_statement = [],
      in_string = in_string s, escape_next = escape_next s\<rparr>"
    unfolding resumable_def by (metis split_from_Nil append_Nil2)
  then show "\<not> in_string s" "\<not> escape_next s" by (simp_all add: fresh_def)
qed


subsection \<open>Re-reading emitted statements\<close>


lemma split_from_snoc: "split_from s (xs @ [c]) = split_step (split_from s xs) c"
  by (simp add: split_from_def)

lemma resumable_step_closes:
  assumes "closes s c"
  shows "resumable (split_step s c)"
  by (simp add: split_step_closes [OF assms] resumable_def lstrip_def fresh_def)

lemma resumable_step_extends:
  assumes res: "resumable s" and ext: "\<not> closes s c"
  shows "resumable (split_step s c)"
proof (cases "(\<forall>a\<in>set (current_statement s). isspace a) \<and> isspace c")
  case True
  then have flags: "\<not> in_string s" "\<not> escape_next s"
    using resumable_spaces [OF res] by simp_all
  from True flags have step: "split_step s c = s\<lparr>current_statement := current_statement s @ [c]\<rparr>"
    by (simp add: split_step_space)
  from True have "lstrip (current_statement s @ [c]) = []"
    by (simp add: lstrip_snoc)
  with flags show ?thesis
    by (simp add: resumable_def step fresh_def)
next
  case False
  let ?cur = "current_statement s"
  from False have ls: "lstrip (?cur @ [c]) = lstrip ?cur @ [c]"
    by (simp add: lstrip_snoc)
  show ?thesis
    unfolding resumable_def
  proof (intro allI)
    fix st buf
    let ?t = "\<lparr>statements = st, current_statement = buf @ lstrip ?cur,
               in_string = in_string s, escape_next = escape_next s\<rparr>"
    have t: "split_from (fresh st buf) (lstrip ?cur) = ?t"
      using res by (simp add: resumable_def)
    have fl: "in_string ?t = in_string s" "escape_next ?t = escape_next s" by simp_all
    have nc: "\<not> closes ?t c" using ext by (simp add: closes_def)
    have "split_from (fresh st buf) (lstrip ?cur @ [c]) = split_step ?t c"
      by (simp add: split_from_snoc t)
    moreover have "split_step ?t c =
        \<lparr>statements = st, current_statement = buf @ lstrip ?cur @ [c],
         in_string = in_string (split_step s c), escape_next = escape_next (split_step s c)\<rparr>"
      using split_step_extends [OF nc] split_step_flags(1,2) [OF fl, of c]
      by (intro split_state.equality) simp_all
    ultimately show "split_from (fresh st buf) (lstrip (current_statement (split_step s c))) =
        \<lparr>statements = st,
         current_statement = buf @ lstrip (current_statement (split_step s c)),
         in_string = in_string (split_step s c), escape_next = escape_next (split_step s c)\<rparr>"
      by (simp add: split_step_extends(2) [OF ext] ls)
  qed
qed

lemma unit_of_close:
  assumes res: "resumable s" and cl: "closes s c"
  shows "unit_statement (strip (current_statement s @ [c]))"
proof -
  let ?cur = "current_statement s"
  from cl have c: "c = semicolon" and flags: "\<not> in_string s" "\<not> escape_next s"
    by (simp_all add: closes_def)
  have e: "strip (?cur @ [c]) = lstrip ?cur @ [semicolon]"
    by (simp add: c strip_snoc)
  show ?thesis
    unfolding unit_statement_def e
  proof (intro allI impI)
    fix st ws
    assume ws: "\<forall>a\<in>set ws. isspace a"
    let ?t = "fresh st (ws @ lstrip ?cur)"
    have t: "split_from (fresh st ws) (lstrip ?cur) = ?t"
      using res flags by (simp add: resumable_def fresh_def)
    have "closes ?t semicolon" by (simp add: closes_def fresh_def)
    then have "split_step ?t semicolon =
       fresh (st @ [strip ((ws @ lstrip ?cur) @ [semicolon])]) []"
      by (simp add: split_step_closes fresh_def)
    moreover have "strip ((ws @ lstrip ?cur) @ [semicolon]) = lstrip ?cur @ [semicolon]"
      using ws by (simp only: strip_snoc isspace_simps not_False_eq_True lstrip_spaces_append lstrip_idem)
    ultimately show "split_from (fresh st ws) (lstrip ?cur @ [semicolon]) =
        fresh (st @ [lstrip ?cur @ [semicolon]]) []"
      by (simp add: split_from_snoc t)
  qed
qed

lemma scan_invariant:
  "resumable (split_scan content) \<and> (\<forall>e\<in>set (statements (split_scan content)). unit_statement e)"
proof (induction content rule: rev_induct)
  case Nil
  show ?case by (simp add: split_scan_def resumable_init) (simp add: split_init_def)
next
  case (snoc c content)
  let ?s = "split_scan content"
  show ?case
  proof (cases "closes ?s c")
    case True
    with snoc show ?thesis
      using resumable_step_closes [OF True] unit_of_close [of ?s c]
      by (simp add: split_scan_snoc) (simp add: split_step_closes)
  next
    case False
    with snoc show ?thesis
      using resumable_step_extends [of ?s c] split_step_extends(1) [OF False]
      by (simp add: split_scan_snoc)
  qed
qed

lemma split_from_units:
  assumes "\<forall>e\<in>set xs. unit_statement e" "xs \<noteq> []" "\<forall>a\<in>set ws. isspace a"
  shows "split_from (fresh st ws) (join ''\<newline>'' xs) = fresh (st @ xs) []"
  using assms
proof (induction "''\<newline>''" xs arbitrary: st ws rule: join.induct)
  case 1
  then show ?case by simp
next
  case (2 x)
  then show ?case by (simp add: unit_statement_def)
next
  case (3 x y ys)
  have nl: "\<forall>a\<in>set ''\<newline>''. isspace a" by (simp add: isspace_def)
  have x: "split_from (fresh st ws) x = fresh (st @ [x]) []"
    using 3(2,4) by (simp add: unit_statement_def)
  have "split_from (fresh (st @ [x]) []) ''\<newline>'' = fresh (st @ [x]) ''\<newline>''"
    by (simp add: fresh_def split_step_space isspace_def)
  moreover have "split_from (fresh (st @ [x]) ''\<newline>'') (join ''\<newline>'' (y # ys)) = fresh ((st @ [x]) @ y # ys) []"
    using 3(2) nl by (intro 3(1)) simp_all
  ultimately show ?case
    by (simp add: split_from_append x)
qed

lemma resplit_newline: "split_statements (join ''\<newline>'' (split_statements content)) = split_statements content"
proof (cases "split_statements content = []")
  case True
  then show ?thesis by (simp add: split_statements_def split_scan_def split_init_def)
next
  case False
  have "split_from (fresh [] []) (join ''\<newline>'' (split_statements content)) = fresh ([] @ split_statements content) []"
    using scan_invariant [of content] False
    by (intro split_from_units) (simp_all add: split_statements_def)
  then show ?thesis
    by (simp add: split_statements_def split_scan_def split_init_def fresh_def)
qed



lemma scan_decomposition:
  "\<exists>head. content = head @ current_statement (split_scan content) \<and>
     statements (split_scan head) = statements (split_scan content) \<and>
     current_statement (split_scan head) = []"
proof (induction content rule: rev_induct)
  case Nil
  show ?case by (simp add: split_scan_def split_init_def)
next
  case (snoc c content)
  let ?s = "split_scan content"
  show ?case
  proof (cases "closes ?s c")
    case True
    then have "current_statement (split_scan (content @ [c])) = []"
      by (simp add: split_scan_snoc split_step_closes)
    then show ?thesis by simp
  next
    case False
    from snoc obtain head where head: "content = head @ current_statement ?s"
      "statements (split_scan head) = statements ?s"
      "current_statement (split_scan head) = []" by blast
    have "content @ [c] = head @ current_statement (split_scan (content @ [c]))"
      using head(1) by (simp add: split_scan_snoc split_step_extends(2) [OF False])
    moreover have "statements (split_scan head) = statements (split_scan (content @ [c]))"
      using head(2) by (simp add: split_scan_snoc split_step_extends(1) [OF False])
    ultimately show ?thesis using head(3) by blast
  qed
qed

section \<open>Facts about the validator\<close>






lemma validate_statement_eq:
  "validate_statement n st errs =
   (if startswith (strip st) ''INSERT INTO videos'' then
      errs
      @ (if \<not> startswith (strip st) ''INSERT INTO videos ('' then [msg_invalid_syntax n] else [])
      @ (if \<not> contains st ''VALUES ('' then [msg_missing_values n] else [])
      @ (if count_str st ''('' \<noteq> count_str st '')''
         then [msg_parens n (count_str st ''('') (count_str st '')'')] else [])
      @ (if odd (real_quotes st) then [msg_quotes n (real_quotes st)] else [])
      @ (if contains st four_empty_fields then [msg_empty_fields n] else [])
      @ (if count_str st ''VALUES'' \<noteq> 1 then [msg_one_values n] else [])
    else errs @ [msg_not_insert n])"
  by (simp add: validate_statement_def Let_def odd_iff_mod_2_eq_one)

lemma validate_statement_append:
  "validate_statement n st errs = errs @ validate_statement n st []"
  by (simp add: validate_statement_eq)

lemma validate_loop_all:
  "validate_loop n stmts (cnt, errs) =
     (cnt + length (filter (\<lambda>st. strip st \<noteq> []) stmts),
      errs @ concat (map (\<lambda>(i, st). if strip st = [] then [] else validate_statement i st [])
                      (List.enumerate n stmts)))"
proof (induction stmts arbitrary: n cnt errs)
  case Nil
  show ?case by simp
next
  case (Cons st stmts)
  show ?case
    by (simp add: Cons.IH validate_statement_append [of n st errs])
qed

section \<open>The claims about the splitter\<close>

text \<open>
  C1. A semicolon read while \<open>in_string\<close> is set is no statement separator: the list of
  statements stays as it was and the semicolon joins the buffer like any other
  character of the literal. The single statement
  \<open>INSERT INTO videos (a) VALUES ('x;y');\<close> is split into exactly one statement, by the
  loop of \<open>validate_migration_improved.py\<close> and by the loop of \<open>test_d1_inserts.py\<close>.
\<close>

theorem semicolon_in_literal_not_separator:
  "(in_string (split_scan pre) \<longrightarrow>
      statements (split_scan (pre @ [semicolon])) = statements (split_scan pre) \<and>
      current_statement (split_scan (pre @ [semicolon])) =
        current_statement (split_scan pre) @ [semicolon] \<and>
      in_string (split_scan (pre @ [semicolon]))) \<and>
   split_statements ''INSERT INTO videos (a) VALUES ('x;y');'' =
     [''INSERT INTO videos (a) VALUES ('x;y');''] \<and>
   split_statements_d1 ''INSERT INTO videos (a) VALUES ('x;y');'' =
     [''INSERT INTO videos (a) VALUES ('x;y');'']"
proof (intro conjI impI)
  assume lit: "in_string (split_scan pre)"
  then have "\<not> closes (split_scan pre) semicolon" by (simp add: closes_def)
  then show "statements (split_scan (pre @ [semicolon])) = statements (split_scan pre)"
    and "current_statement (split_scan (pre @ [semicolon])) =
      current_statement (split_scan pre) @ [semicolon]"
    by (simp_all add: split_scan_snoc split_step_extends)
  from lit show "in_string (split_scan (pre @ [semicolon]))"
    by (simp add: split_scan_snoc split_step_def Let_def)
next
  show "split_statements ''INSERT INTO videos (a) VALUES ('x;y');'' =
     [''INSERT INTO videos (a) VALUES ('x;y');'']"
    by code_simp
  show "split_statements_d1 ''INSERT INTO videos (a) VALUES ('x;y');'' =
     [''INSERT INTO videos (a) VALUES ('x;y');'']"
    by code_simp
qed

theorem semicolon_in_literal_not_separator_witness:
  "in_string (split_scan ''INSERT INTO videos (a) VALUES ('x'') \<and>
   statements (split_scan (''INSERT INTO videos (a) VALUES ('x'' @ [semicolon])) = [] \<and>
   current_statement (split_scan (''INSERT INTO videos (a) VALUES ('x'' @ [semicolon])) =
     ''INSERT INTO videos (a) VALUES ('x;''"
proof -
  have lit: "in_string (split_scan ''INSERT INTO videos (a) VALUES ('x'')"
    by code_simp
  have st: "statements (split_scan ''INSERT INTO videos (a) VALUES ('x'') = []"
    by code_simp
  have cur: "current_statement (split_scan ''INSERT INTO videos (a) VALUES ('x'') =
      ''INSERT INTO videos (a) VALUES ('x''"
    by code_simp
  from semicolon_in_literal_not_separator [of "''INSERT INTO videos (a) VALUES ('x''"] lit
  show ?thesis by (simp add: st cur semicolon_def)
qed

text \<open>
  C2, as the specification states it, fails: every statement the loop emits still ends
  with its semicolon, so joining two of them with a semicolon and a newline puts two
  semicolons in a row, and the second one closes a statement of its own.
\<close>

theorem resplit_semicolon_newline_counterexample:
  "split_statements (join '';\<newline>'' (split_statements
      ''INSERT INTO videos (a) VALUES (1);\<newline>INSERT INTO videos (a) VALUES (2);'')) =
     [''INSERT INTO videos (a) VALUES (1);'', '';'', ''INSERT INTO videos (a) VALUES (2);''] \<and>
   split_statements
      ''INSERT INTO videos (a) VALUES (1);\<newline>INSERT INTO videos (a) VALUES (2);'' =
     [''INSERT INTO videos (a) VALUES (1);'', ''INSERT INTO videos (a) VALUES (2);''] \<and>
   split_statements (join '';\<newline>'' (split_statements
      ''INSERT INTO videos (a) VALUES (1);\<newline>INSERT INTO videos (a) VALUES (2);'')) \<noteq>
   split_statements
      ''INSERT INTO videos (a) VALUES (1);\<newline>INSERT INTO videos (a) VALUES (2);''"
  by code_simp

text \<open>
  C2, amended: the statements the splitter produces, each of which already ends with its
  semicolon, joined by a newline alone and split again, give the same statement list.
\<close>

theorem resplit_newline_idempotent:
  "split_statements (join ''\<newline>'' (split_statements content)) = split_statements content"
  by (rule resplit_newline)

text \<open>
  C3, as the specification states it, fails: after the loop nothing appends
  \<open>current_statement\<close>; the text after the last separating semicolon is left in the
  buffer and never becomes a statement.
\<close>

theorem trailing_buffer_counterexample:
  "trailing_buffer
      ''INSERT INTO videos (a) VALUES (1); INSERT INTO videos (a) VALUES (2)'' =
     '' INSERT INTO videos (a) VALUES (2)'' \<and>
   strip '' INSERT INTO videos (a) VALUES (2)'' = ''INSERT INTO videos (a) VALUES (2)'' \<and>
   split_statements
      ''INSERT INTO videos (a) VALUES (1); INSERT INTO videos (a) VALUES (2)'' =
     [''INSERT INTO videos (a) VALUES (1);''] \<and>
   ''INSERT INTO videos (a) VALUES (2)'' \<notin> set (split_statements
      ''INSERT INTO videos (a) VALUES (1); INSERT INTO videos (a) VALUES (2)'')"
  by code_simp

text \<open>
  C3, amended: the buffer left at the end of the input is discarded. The input is its
  head, up to and including the last separating semicolon, followed by the trailing
  buffer; the head leaves nothing in the buffer, and the splitter returns for the whole
  input exactly the statements it returns for the head.
\<close>

theorem trailing_buffer_discarded:
  "content = take (length content - length (trailing_buffer content)) content
       @ trailing_buffer content \<and>
   trailing_buffer (take (length content - length (trailing_buffer content)) content) = [] \<and>
   split_statements content =
     split_statements (take (length content - length (trailing_buffer content)) content)"
proof -
  obtain head where head: "content = head @ trailing_buffer content"
    "statements (split_scan head) = statements (split_scan content)"
    "trailing_buffer head = []"
    using scan_decomposition [of content] by (auto simp: trailing_buffer_def)
  from head(1) have "length head = length content - length (trailing_buffer content)"
    by (metis add_diff_cancel_right' length_append)
  with head(1) have "take (length content - length (trailing_buffer content)) content = head"
    by (metis append_eq_conv_conj)
  with head show ?thesis by (simp add: split_statements_def)
qed

text \<open>
  C4. A quote that follows an unescaped backslash is read as an escaped character: it
  leaves \<open>in_string\<close> and the statement list as they were. The statement
  \<open>INSERT INTO videos (a) VALUES ('it\'s');\<close> is split into exactly one statement.
\<close>

theorem escaped_quote_keeps_in_string:
  "(\<not> escape_next (split_scan pre) \<longrightarrow>
      in_string (split_scan (pre @ [backslash, quote])) = in_string (split_scan pre) \<and>
      statements (split_scan (pre @ [backslash, quote])) = statements (split_scan pre)) \<and>
   split_statements (''INSERT INTO videos (a) VALUES ('it'' @ [backslash, quote] @ ''s');'') =
     [''INSERT INTO videos (a) VALUES ('it'' @ [backslash, quote] @ ''s');'']"
proof (intro conjI impI)
  assume "\<not> escape_next (split_scan pre)"
  then show "in_string (split_scan (pre @ [backslash, quote])) = in_string (split_scan pre)"
    and "statements (split_scan (pre @ [backslash, quote])) = statements (split_scan pre)"
    by (simp_all add: split_scan_def split_from_append split_step_def Let_def)
next
  show "split_statements (''INSERT INTO videos (a) VALUES ('it'' @ [backslash, quote] @ ''s');'') =
     [''INSERT INTO videos (a) VALUES ('it'' @ [backslash, quote] @ ''s');'']"
    by code_simp
qed

theorem escaped_quote_keeps_in_string_witness:
  "\<not> escape_next (split_scan ''INSERT INTO videos (a) VALUES ('it'') \<and>
   in_string (split_scan ''INSERT INTO videos (a) VALUES ('it'') \<and>
   in_string (split_scan (''INSERT INTO videos (a) VALUES ('it'' @ [backslash, quote]))"
proof -
  have esc: "\<not> escape_next (split_scan ''INSERT INTO videos (a) VALUES ('it'')"
    by code_simp
  have lit: "in_string (split_scan ''INSERT INTO videos (a) VALUES ('it'')"
    by code_simp
  from escaped_quote_keeps_in_string [of "''INSERT INTO videos (a) VALUES ('it''"] esc lit
  show ?thesis by simp
qed

section \<open>The claims about the validator\<close>

text \<open>
  C5. The validator finds no defect in \<open>INSERT INTO videos (video_id) VALUES ('abc');\<close>,
  whatever the number of the statement and whatever was collected before; the whole
  \<open>validate_sql_file\<close> on a file with this text counts one statement and no defect.
\<close>

theorem validator_accepts_example:
  "validate_statement n ''INSERT INTO videos (video_id) VALUES ('abc');'' errs = errs \<and>
   validate_content ''INSERT INTO videos (video_id) VALUES ('abc');'' = (1, [])"
proof
  let ?st = "''INSERT INTO videos (video_id) VALUES ('abc');''"
  have "startswith (strip ?st) ''INSERT INTO videos''"
    and "startswith (strip ?st) ''INSERT INTO videos (''"
    and "contains ?st ''VALUES (''"
    and "count_str ?st ''('' = count_str ?st '')''"
    and "\<not> odd (real_quotes ?st)"
    and "\<not> contains ?st four_empty_fields"
    and "count_str ?st ''VALUES'' = 1"
    by code_simp+
  then show "validate_statement n ?st errs = errs"
    by (simp add: validate_statement_eq)
  show "validate_content ?st = (1, [])"
    by code_simp
qed

text \<open>
  C6. For a statement that begins, after trimming, with \<open>INSERT INTO videos\<close> the
  validator appends to the defects collected so far the message of every one of the
  six remaining checks that fails, each check decided on the statement alone; for any
  other statement it appends the single message \<open>Not an INSERT statement\<close>. Over a whole
  file the defects are those of all its statements, one statement after the other.
\<close>

theorem validator_collects_every_defect:
  "(startswith (strip st) ''INSERT INTO videos'' \<longrightarrow>
      validate_statement n st errs =
        errs
        @ (if \<not> startswith (strip st) ''INSERT INTO videos ('' then [msg_invalid_syntax n] else [])
        @ (if \<not> contains st ''VALUES ('' then [msg_missing_values n] else [])
        @ (if count_str st ''('' \<noteq> count_str st '')''
           then [msg_parens n (count_str st ''('') (count_str st '')'')] else [])
        @ (if odd (real_quotes st) then [msg_quotes n (real_quotes st)] else [])
        @ (if contains st four_empty_fields then [msg_empty_fields n] else [])
        @ (if count_str st ''VALUES'' \<noteq> 1 then [msg_one_values n] else [])) \<and>
   (\<not> startswith (strip st) ''INSERT INTO videos'' \<longrightarrow>
      validate_statement n st errs = errs @ [msg_not_insert n]) \<and>
   validate_content content =
     (length (filter (\<lambda>s. strip s \<noteq> []) (split_statements content)),
      concat (map (\<lambda>(i, s). if strip s = [] then [] else validate_statement i s [])
                (List.enumerate 1 (split_statements content))))"
  by (simp add: validate_statement_eq validate_content_def validate_loop_all)

theorem validator_collects_every_defect_witness:
  "startswith (strip (''INSERT INTO videos (('abc'' @ four_empty_fields)) ''INSERT INTO videos'' \<and>
   validate_statement 3 (''INSERT INTO videos (('abc'' @ four_empty_fields) [] =
     [''Statement 3: Missing VALUES clause'',
      ''Statement 3: Unbalanced parentheses (2 open, 0 close)'',
      ''Statement 3: Unbalanced quotes (9 quotes)'',
      ''Statement 3: Contains multiple empty fields'',
      ''Statement 3: Should have exactly one VALUES clause''] \<and>
   \<not> startswith (strip ''DROP TABLE videos (('abc'') ''INSERT INTO videos'' \<and>
   validate_statement 3 ''DROP TABLE videos (('abc'' [] =
     [''Statement 3: Not an INSERT statement'']"
proof -
  let ?a = "''INSERT INTO videos (('abc'' @ four_empty_fields"
  let ?b = "''DROP TABLE videos (('abc''"
  have a: "startswith (strip ?a) ''INSERT INTO videos''" by code_simp
  have b: "\<not> startswith (strip ?b) ''INSERT INTO videos''" by code_simp
  have "validate_statement 3 ?a [] =
        []
        @ (if \<not> startswith (strip ?a) ''INSERT INTO videos ('' then [msg_invalid_syntax 3] else [])
        @ (if \<not> contains ?a ''VALUES ('' then [msg_missing_values 3] else [])
        @ (if count_str ?a ''('' \<noteq> count_str ?a '')''
           then [msg_parens 3 (count_str ?a ''('') (count_str ?a '')'')] else [])
        @ (if odd (real_quotes ?a) then [msg_quotes 3 (real_quotes ?a)] else [])
        @ (if contains ?a four_empty_fields then [msg_empty_fields 3] else [])
        @ (if count_str ?a ''VALUES'' \<noteq> 1 then [msg_one_values 3] else [])"
    using validator_collects_every_defect [of ?a 3 "[]"] a by blast
  also have "\<dots> = [''Statement 3: Missing VALUES clause'',
      ''Statement 3: Unbalanced parentheses (2 open, 0 close)'',
      ''Statement 3: Unbalanced quotes (9 quotes)'',
      ''Statement 3: Contains multiple empty fields'',
      ''Statement 3: Should have exactly one VALUES clause'']"
    by code_simp
  finally have ra: "validate_statement 3 ?a [] = [''Statement 3: Missing VALUES clause'',
      ''Statement 3: Unbalanced parentheses (2 open, 0 close)'',
      ''Statement 3: Unbalanced quotes (9 quotes)'',
      ''Statement 3: Contains multiple empty fields'',
      ''Statement 3: Should have exactly one VALUES clause'']" .
  have "validate_statement 3 ?b [] = [] @ [msg_not_insert 3]"
    using validator_collects_every_defect [of ?b 3 "[]"] b by blast
  also have "\<dots> = [''Statement 3: Not an INSERT statement'']"
    by code_simp
  finally have rb: "validate_statement 3 ?b [] = [''Statement 3: Not an INSERT statement'']" .
  from a b ra rb show ?thesis by blast
qed

section \<open>The quote check over a whole file\<close>










section \<open>The claim about a missing input file\<close>

text \<open>
  C8, as the specification states it, fails. \<open>validate_migration_improved.py\<close> opens
  the file outside any \<open>try\<close>, so a missing file raises \<open>FileNotFoundError\<close> out of
  \<open>validate_sql_file\<close>; and \<open>validate_fixed_sql.py\<close> catches \<open>FileNotFoundError\<close> alone, so
  any other error of \<open>open\<close> leaves it as an exception.
\<close>

theorem io_error_escapes_counterexample:
  "fixed_validate_sql_file ''db/mutations/insert_videos_migrated_fixed.sql''
      (Raises PermissionError) = Inl PermissionError \<and>
   validate_sql_file (Raises FileNotFoundError) = Inl FileNotFoundError"
  by (simp add: fixed_validate_sql_file_def validate_sql_file_def)

text \<open>
  C8, amended: \<open>validate_sql_file\<close> of \<open>validate_fixed_sql.py\<close> returns for a missing file
  the line count 0 and a defect list with the single entry \<open>File not found: <path>\<close>;
  and once the file has been read, both validators return their count and their
  defect list, whatever the text is.
\<close>

theorem missing_file_reported:
  "fixed_validate_sql_file file_path (Raises FileNotFoundError) =
     Inr (0, [''File not found: '' @ file_path]) \<and>
   fixed_validate_sql_file file_path (Reads lines) = Inr (fixed_validate_lines 1 lines (0, [])) \<and>
   validate_sql_file (Reads content) = Inr (validate_content content)"
  by (simp add: fixed_validate_sql_file_def validate_sql_file_def)

section \<open>Facts about the generated statements\<close>

lemma count_str_single: "count_str s [c] = count_list s c"
proof (induction s)
  case Nil
  show ?case by (subst count_str.simps) simp
next
  case (Cons x xs)
  show ?case by (subst count_str.simps) (simp add: Cons.IH)
qed

lemma count_list_join:
  "count_list sep c = 0 \<Longrightarrow> count_list (join sep xs) c = sum_list (map (\<lambda>x. count_list x c) xs)"
  by (induction sep xs rule: join.induct) simp_all

lemma count_list_replace_char:
  "count_list (replace_char s c [c, c]) c = 2 * count_list s c"
  by (induction s) (simp_all add: replace_char_def)

lemma digit_char_not_quote: "d < 10 \<Longrightarrow> digit_char d \<noteq> quote"
proof
  assume d: "d < 10" and "digit_char d = quote"
  then have "of_char (digit_char d) = (of_char quote :: nat)" by simp
  with d show False by (simp add: digit_char_def quote_def)
qed

lemma quote_notin_str_nat: "quote \<notin> set (str_nat n)"
proof (induction n rule: str_nat.induct)
  case (1 n)
  show ?case
  proof (cases "n < 10")
    case True
    then show ?thesis
      using digit_char_not_quote [of n] by (subst str_nat.simps) auto
  next
    case False
    have "n mod 10 < 10" by simp
    then have "digit_char (n mod 10) \<noteq> quote" by (rule digit_char_not_quote)
    with False 1 show ?thesis
      by (subst str_nat.simps) auto
  qed
qed

lemma quote_notin_str_int: "quote \<notin> set (str_int i)"
  by (simp add: str_int_def quote_notin_str_nat) (simp add: quote_def)

lemma even_quotes_escape_sql_string:
  assumes "\<And>nz repr. v = PFloat nz repr \<Longrightarrow> quote \<notin> set repr"
  shows "even (count_list (escape_sql_string v) quote)"
proof (cases v)
  case PNone
  then show ?thesis by (simp add: escape_sql_string_def quote_def)
next
  case (PBool b)
  then show ?thesis by (simp add: escape_sql_string_def quote_def)
next
  case (PInt i)
  then show ?thesis
    using quote_notin_str_int [of i] by (simp add: escape_sql_string_def)
next
  case (PFloat nz repr)
  then show ?thesis
    using assms [of nz repr] by (simp add: escape_sql_string_def)
next
  case (PStr s)
  then show ?thesis by (simp add: escape_sql_string_def count_list_replace_char)
next
  case (PObject t repr)
  then show ?thesis by (simp add: escape_sql_string_def count_list_replace_char)
qed

lemma even_sum_list: "(\<And>x. x \<in> set xs \<Longrightarrow> even (f x)) \<Longrightarrow> even (sum_list (map f xs) :: nat)"
  by (induction xs) simp_all

lemma zero_sum_list: "(\<And>x. x \<in> set xs \<Longrightarrow> f x = 0) \<Longrightarrow> sum_list (map f xs) = (0 :: nat)"
  by (induction xs) simp_all

lemma even_quotes_generated:
  assumes keys: "\<And>k v. (k, v) \<in> set row \<Longrightarrow> quote \<notin> set k"
    and floats: "\<And>k nz repr. (k, PFloat nz repr) \<in> set row \<Longrightarrow> quote \<notin> set repr"
  shows "even (count_list (generate_insert_statement row) quote)"
proof -
  have sep: "count_list '', '' quote = 0" by (simp add: quote_def)
  have "\<And>x. x \<in> set row \<Longrightarrow> count_list (fst x) quote = 0"
  proof -
    fix x assume "x \<in> set row"
    then have "quote \<notin> set (fst x)" using keys [of "fst x" "snd x"] by simp
    then show "count_list (fst x) quote = 0" by simp
  qed
  then have "sum_list (map (\<lambda>x. count_list (fst x) quote) row) = 0"
    by (rule zero_sum_list)
  then have cols: "count_list (join '', '' (map fst row)) quote = 0"
    by (simp only: count_list_join [OF sep] map_map comp_def)
  have "\<And>x. x \<in> set row \<Longrightarrow> even (count_list (escape_sql_string (snd x)) quote)"
  proof -
    fix x assume x: "x \<in> set row"
    show "even (count_list (escape_sql_string (snd x)) quote)"
    proof (rule even_quotes_escape_sql_string)
      fix nz repr assume "snd x = PFloat nz repr"
      with x have "(fst x, PFloat nz repr) \<in> set row" by (metis prod.collapse)
      then show "quote \<notin> set repr" by (rule floats)
    qed
  qed
  then have "even (sum_list (map (\<lambda>x. count_list (escape_sql_string (snd x)) quote) row))"
    by (rule even_sum_list)
  then have vals: "even (count_list (join '', '' (map (\<lambda>x. escape_sql_string (snd x)) row)) quote)"
    by (simp only: count_list_join [OF sep] map_map comp_def)
  have a: "count_list ''INSERT INTO videos ('' quote = 0"
    and b: "count_list '') VALUES ('' quote = 0"
    and c: "count_list '');'' quote = 0"
    by (simp_all add: quote_def)
  have "generate_insert_statement row =
      ''INSERT INTO videos ('' @ join '', '' (map fst row) @ '') VALUES (''
        @ join '', '' (map (\<lambda>x. escape_sql_string (snd x)) row) @ '');''"
    by (simp only: generate_insert_statement_def Let_def case_prod_unfold)
  then have "count_list (generate_insert_statement row) quote =
      count_list (join '', '' (map (\<lambda>x. escape_sql_string (snd x)) row)) quote"
    by (simp only: count_list_append a b c cols add_0 add_0_right)
  with vals show ?thesis by simp
qed

lemma strip_generated: "strip (generate_insert_statement row) = generate_insert_statement row"
proof -
  obtain body where b: "generate_insert_statement row = CHR ''I'' # body @ '';''"
    by (simp add: generate_insert_statement_def Let_def)
  have "\<not> isspace CHR ''I''" "\<not> isspace CHR '';''" by (simp_all add: isspace_def)
  then show ?thesis
    unfolding b by (simp add: strip_def lstrip_def rstrip_def)
qed

lemma endswith_generated: "endswith (generate_insert_statement row) '';''"
  by (simp add: generate_insert_statement_def Let_def endswith_def suffix_def)

lemma transform_row_keys:
  "transform_row r = Inr t \<Longrightarrow> (k, v) \<in> set t \<Longrightarrow> quote \<notin> set k"
  by (auto simp: transform_row_def quote_def split: sum.splits)

section \<open>Facts about the lines of the written file\<close>

lemma universal_newlines_Cons:
  "carriage_return \<noteq> c \<Longrightarrow> universal_newlines (c # xs) = c # universal_newlines xs"
  by (cases xs) auto

lemma universal_newlines_id: "carriage_return \<notin> set s \<Longrightarrow> universal_newlines s = s"
  by (induction s) (simp_all add: universal_newlines_Cons)

lemma lines_from_line:
  "line_feed \<notin> set s \<Longrightarrow>
   lines_from cur (s @ line_feed # t) = (cur @ s @ [line_feed]) # lines_from [] t"
  by (induction s arbitrary: cur) auto

lemma lines_from_concat:
  "(\<And>s. s \<in> set stmts \<Longrightarrow> line_feed \<notin> set s) \<Longrightarrow>
   lines_from [] (concat (map (\<lambda>s. s @ [line_feed]) stmts)) = map (\<lambda>s. s @ [line_feed]) stmts"
proof (induction stmts)
  case Nil
  show ?case by simp
next
  case (Cons s stmts)
  have "lines_from [] (s @ line_feed # concat (map (\<lambda>s. s @ [line_feed]) stmts)) =
      ([] @ s @ [line_feed]) # lines_from [] (concat (map (\<lambda>s. s @ [line_feed]) stmts))"
    using Cons.prems [of s] by (intro lines_from_line) simp
  with Cons show ?case by simp
qed

lemma batch_text:
  "stmts \<noteq> [] \<Longrightarrow>
   join ''\<newline>'' stmts @ ''\<newline>'' = concat (map (\<lambda>s. s @ [line_feed]) stmts)"
  by (induction "''\<newline>''" stmts rule: join.induct) (simp_all add: line_feed_def)

lemma file_lines_batch:
  assumes "\<And>s. s \<in> set stmts \<Longrightarrow> line_feed \<notin> set s \<and> carriage_return \<notin> set s"
    and "stmts \<noteq> []"
  shows "file_lines (join ''\<newline>'' stmts @ ''\<newline>'') = map (\<lambda>s. s @ [line_feed]) stmts"
proof -
  have "carriage_return \<notin> set (concat (map (\<lambda>s. s @ [line_feed]) stmts))"
    using assms(1) by (auto simp: carriage_return_def line_feed_def)
  then have "universal_newlines (concat (map (\<lambda>s. s @ [line_feed]) stmts)) =
      concat (map (\<lambda>s. s @ [line_feed]) stmts)"
    by (rule universal_newlines_id)
  moreover have "lines_from [] (concat (map (\<lambda>s. s @ [line_feed]) stmts)) =
      map (\<lambda>s. s @ [line_feed]) stmts"
    using assms(1) by (intro lines_from_concat) simp
  ultimately show ?thesis
    by (simp only: file_lines_def batch_text [OF assms(2)])
qed

lemma strip_generated_line:
  "strip (generate_insert_statement row @ [line_feed]) = generate_insert_statement row"
proof -
  obtain body where b: "generate_insert_statement row = CHR ''I'' # body @ '';''"
    by (simp add: generate_insert_statement_def Let_def)
  have "\<not> isspace CHR ''I''" "\<not> isspace CHR '';''" "isspace line_feed"
    by (simp_all add: isspace_def line_feed_def)
  then show ?thesis
    unfolding b by (simp add: strip_def lstrip_def rstrip_def)
qed

lemma startswith_generated: "startswith (generate_insert_statement row) ''INSERT INTO videos''"
  by (simp add: generate_insert_statement_def Let_def startswith_def)

lemma generated_nonempty: "generate_insert_statement row \<noteq> []"
  by (simp add: generate_insert_statement_def Let_def)

lemma fixed_validate_generated:
  assumes "\<And>row. row \<in> set rows \<Longrightarrow> even (count_str (generate_insert_statement row) [quote])"
  shows "fixed_validate_lines n (map (\<lambda>s. s @ [line_feed]) (map generate_insert_statement rows))
           (c, errs) = (c + length rows, errs)"
  using assms
proof (induction rows arbitrary: n c)
  case Nil
  show ?case by simp
next
  case (Cons row rows)
  have "even (count_str (generate_insert_statement row) [quote])"
    using Cons.prems [of row] by simp
  then have "count_str (generate_insert_statement row) [quote] mod 2 = 0"
    by (simp only: even_iff_mod_2_eq_zero)
  moreover have "fixed_validate_lines (n + 1)
       (map (\<lambda>s. s @ [line_feed]) (map generate_insert_statement rows)) (c + 1, errs) =
      (c + 1 + length rows, errs)"
    using Cons.prems by (intro Cons.IH) simp
  ultimately show ?case
    by (simp add: Let_def strip_generated_line generated_nonempty startswith_generated
        endswith_generated)
qed

lemma migration_validate_generated:
  assumes "\<And>row. row \<in> set rows \<Longrightarrow> even (count_str (generate_insert_statement row) [quote])"
  shows "migration_validate_lines n
           (map (\<lambda>s. s @ [line_feed]) (map generate_insert_statement rows)) (c, errs) =
         (c + length rows,
          errs @ concat (map (\<lambda>(i, s). if contains s two_empty_fields
                    then [''Line '' @ str_nat i @ '': Contains empty critical fields''] else [])
                  (List.enumerate n (map generate_insert_statement rows))))"
  using assms
proof (induction rows arbitrary: n c errs)
  case Nil
  show ?case by simp
next
  case (Cons row rows)
  have "even (count_str (generate_insert_statement row) [quote])"
    using Cons.prems [of row] by simp
  then have q: "count_str (generate_insert_statement row) [quote] mod 2 = 0"
    by (simp only: even_iff_mod_2_eq_zero)
  have ih: "\<And>errs1. migration_validate_lines (Suc n)
       (map (\<lambda>s. s @ [line_feed]) (map generate_insert_statement rows)) (Suc c, errs1) =
      (Suc c + length rows,
       errs1 @ concat (map (\<lambda>(i, s). if contains s two_empty_fields
                    then [''Line '' @ str_nat i @ '': Contains empty critical fields''] else [])
                  (List.enumerate (Suc n) (map generate_insert_statement rows))))"
    using Cons.prems by (intro Cons.IH) simp
  show ?case
    by (simp add: Let_def strip_generated_line generated_nonempty startswith_generated
        endswith_generated q ih del: map_map)
qed

lemma rstrip_generated_line:
  "rstrip (generate_insert_statement row @ [line_feed]) = generate_insert_statement row"
proof -
  obtain body where b: "generate_insert_statement row = body @ '';''"
    by (simp add: generate_insert_statement_def Let_def)
  have "\<not> isspace CHR '';''" "isspace line_feed"
    by (simp_all add: isspace_def line_feed_def)
  then show ?thesis
    unfolding b by (simp add: rstrip_def)
qed

lemma fix_line_generated:
  "fix_line (generate_insert_statement row @ [line_feed]) = generate_insert_statement row"
  by (simp add: fix_line_def Let_def rstrip_generated_line strip_generated startswith_generated
      endswith_generated)

lemma fix_sql_text_generated:
  assumes "\<And>row. row \<in> set rows \<Longrightarrow>
      line_feed \<notin> set (generate_insert_statement row) \<and>
      carriage_return \<notin> set (generate_insert_statement row)"
    and "rows \<noteq> []"
  shows "fix_sql_text (join ''\<newline>'' (map generate_insert_statement rows) @ ''\<newline>'') =
     join ''\<newline>'' (map generate_insert_statement rows) @ ''\<newline>''"
proof -
  let ?stmts = "map generate_insert_statement rows"
  have ls: "file_lines (join ''\<newline>'' ?stmts @ ''\<newline>'') = map (\<lambda>s. s @ [line_feed]) ?stmts"
  proof (rule file_lines_batch)
    fix s assume "s \<in> set ?stmts"
    with assms(1) show "line_feed \<notin> set s \<and> carriage_return \<notin> set s" by auto
  next
    from assms(2) show "?stmts \<noteq> []" by simp
  qed
  have "concat (map (\<lambda>raw. fix_line raw @ ''\<newline>'') (map (\<lambda>s. s @ [line_feed]) ?stmts)) =
      concat (map (\<lambda>s. s @ [line_feed]) ?stmts)"
    by (induction rows) (simp_all add: fix_line_generated [unfolded line_feed_def] line_feed_def)
  also have "\<dots> = join ''\<newline>'' ?stmts @ ''\<newline>''"
    using assms(2) by (simp add: batch_text)
  finally show ?thesis by (simp only: fix_sql_text_def ls)
qed

section \<open>The claim about the generated statements\<close>

text \<open>
  C10, as stated, fails. The column names are copied into the statement as they are, so
  a key with a quote gives a statement with an odd number of quotes. And
  \<open>validate_migration.py\<close> and \<open>validate_fixed_sql.py\<close> count the quotes line by line: a row
  with a line break in a text value passes \<open>validate_row\<close>, \<open>migrate\<close> writes its statement,
  which has ten quotes, on two lines of the output file, and both validators report
  unbalanced quotes for the first of them: \<open>validate_migration.py\<close> on the file as
  written, \<open>validate_fixed_sql.py\<close> on the file \<open>fix_sql_semicolons.py\<close> makes of it.
\<close>

theorem generated_statement_counterexample:
  "count_str (generate_insert_statement [(''it's'', PNone)]) [quote] = 1 \<and>
   migrate no_failure 100
     (Reads [[(''video_id'', PStr ''abc''), (''cleaned_title'', PStr ''t''),
              (''cleaned_description'', PStr ''line1\<newline>line2''),
              (''channel_name'', PStr ''n''), (''channel_id'', PStr ''c'')]]) None =
     Inr ((1, 0), [],
          Some (''INSERT INTO videos (video_id, cleaned_title, cleaned_description, ''
                @ ''channel_name, channel_id, published_at, duration_seconds, view_count, ''
                @ ''like_count, comment_count, is_indexed, created_at) ''
                @ ''VALUES ('abc', 't', 'line1\<newline>line2', 'n', 'c', ''
                @ ''NULL, NULL, NULL, NULL, NULL, 0, NULL);\<newline>'')) \<and>
   count_str (''INSERT INTO videos (video_id, cleaned_title, cleaned_description, ''
                @ ''channel_name, channel_id, published_at, duration_seconds, view_count, ''
                @ ''like_count, comment_count, is_indexed, created_at) ''
                @ ''VALUES ('abc', 't', 'line1\<newline>line2', 'n', 'c', ''
                @ ''NULL, NULL, NULL, NULL, NULL, 0, NULL);'') [quote] = 10 \<and>
   file_lines (''INSERT INTO videos (video_id, cleaned_title, cleaned_description, ''
                @ ''channel_name, channel_id, published_at, duration_seconds, view_count, ''
                @ ''like_count, comment_count, is_indexed, created_at) ''
                @ ''VALUES ('abc', 't', 'line1\<newline>line2', 'n', 'c', ''
                @ ''NULL, NULL, NULL, NULL, NULL, 0, NULL);\<newline>'') =
     [''INSERT INTO videos (video_id, cleaned_title, cleaned_description, ''
        @ ''channel_name, channel_id, published_at, duration_seconds, view_count, ''
        @ ''like_count, comment_count, is_indexed, created_at) ''
        @ ''VALUES ('abc', 't', 'line1\<newline>'',
      ''line2', 'n', 'c', NULL, NULL, NULL, NULL, NULL, 0, NULL);\<newline>''] \<and>
   migration_validate_sql_file (Reads
     [''INSERT INTO videos (video_id, cleaned_title, cleaned_description, ''
        @ ''channel_name, channel_id, published_at, duration_seconds, view_count, ''
        @ ''like_count, comment_count, is_indexed, created_at) ''
        @ ''VALUES ('abc', 't', 'line1\<newline>'',
      ''line2', 'n', 'c', NULL, NULL, NULL, NULL, NULL, 0, NULL);\<newline>'']) =
     Inr (2, [''Line 1: Missing semicolon'', ''Line 1: Unbalanced quotes'',
              ''Line 2: Not an INSERT statement'']) \<and>
   fixed_validate_sql_file ''db/mutations/insert_videos_migrated_fixed.sql'' (Reads
     (file_lines (fix_sql_text
       (''INSERT INTO videos (video_id, cleaned_title, cleaned_description, ''
          @ ''channel_name, channel_id, published_at, duration_seconds, view_count, ''
          @ ''like_count, comment_count, is_indexed, created_at) ''
          @ ''VALUES ('abc', 't', 'line1\<newline>line2', 'n', 'c', ''
          @ ''NULL, NULL, NULL, NULL, NULL, 0, NULL);\<newline>'')))) =
     Inr (2, [''Line 1: Unbalanced quotes'', ''Line 2: Not an INSERT statement''])"
  by code_simp

text \<open>
  C10, amended: every statement returned by \<open>generate_insert_statement\<close> ends with a
  semicolon. For a row whose column names contain no single quote, as the column names
  of every row that \<open>transform_row\<close> returns, and whose floats are printed without one,
  the statement contains an even number of single-quote characters. Hence, when no
  statement of a batch contains a line break, every statement is one line of the text
  \<open>_write_batch\<close> writes and passes the even-quote-count check each validator makes on a
  line: \<open>fix_sql_semicolons.py\<close> leaves the text as it is, \<open>validate_fixed_sql.py\<close>
  counts the lines and reports nothing, and \<open>validate_migration.py\<close> reports nothing but
  the lines with two empty fields in a row.
\<close>

theorem generated_statement_even_quotes:
  "endswith (generate_insert_statement row) '';'' \<and>
   ((\<forall>(k, v)\<in>set row. quote \<notin> set k \<and> (\<forall>nz repr. v = PFloat nz repr \<longrightarrow> quote \<notin> set repr)) \<longrightarrow>
      even (count_str (generate_insert_statement row) [quote])) \<and>
   (transform_row r = Inr t \<longrightarrow> (\<forall>(k, v)\<in>set t. quote \<notin> set k)) \<and>
   (rows \<noteq> [] \<and>
    (\<forall>row\<in>set rows.
       (\<forall>(k, v)\<in>set row. quote \<notin> set k \<and> (\<forall>nz repr. v = PFloat nz repr \<longrightarrow> quote \<notin> set repr)) \<and>
       line_feed \<notin> set (generate_insert_statement row) \<and>
       carriage_return \<notin> set (generate_insert_statement row)) \<longrightarrow>
      fix_sql_text (join ''\<newline>'' (map generate_insert_statement rows) @ ''\<newline>'') =
        join ''\<newline>'' (map generate_insert_statement rows) @ ''\<newline>'' \<and>
      fixed_validate_sql_file file_path
          (Reads (file_lines (fix_sql_text
             (join ''\<newline>'' (map generate_insert_statement rows) @ ''\<newline>'')))) =
        Inr (length rows, []) \<and>
      migration_validate_sql_file
          (Reads (file_lines (join ''\<newline>'' (map generate_insert_statement rows) @ ''\<newline>''))) =
        Inr (length rows,
             concat (map (\<lambda>(i, s). if contains s two_empty_fields
                       then [''Line '' @ str_nat i @ '': Contains empty critical fields'']
                       else [])
                     (List.enumerate 1 (map generate_insert_statement rows)))))"
proof (intro conjI impI)
  show "endswith (generate_insert_statement row) '';''"
    by (rule endswith_generated)
next
  assume h: "\<forall>(k, v)\<in>set row. quote \<notin> set k \<and> (\<forall>nz repr. v = PFloat nz repr \<longrightarrow> quote \<notin> set repr)"
  have "even (count_list (generate_insert_statement row) quote)"
  proof (rule even_quotes_generated)
    fix k v assume "(k, v) \<in> set row"
    with h show "quote \<notin> set k" by blast
  next
    fix k nz repr assume "(k, PFloat nz repr) \<in> set row"
    with h show "quote \<notin> set repr" by blast
  qed
  then show "even (count_str (generate_insert_statement row) [quote])"
    by (simp only: count_str_single)
next
  assume "transform_row r = Inr t"
  then show "\<forall>(k, v)\<in>set t. quote \<notin> set k"
    using transform_row_keys [of r t] by blast
next
  assume a: "rows \<noteq> [] \<and>
    (\<forall>row\<in>set rows.
       (\<forall>(k, v)\<in>set row. quote \<notin> set k \<and> (\<forall>nz repr. v = PFloat nz repr \<longrightarrow> quote \<notin> set repr)) \<and>
       line_feed \<notin> set (generate_insert_statement row) \<and>
       carriage_return \<notin> set (generate_insert_statement row))"
  have ev: "\<And>row. row \<in> set rows \<Longrightarrow> even (count_str (generate_insert_statement row) [quote])"
  proof -
    fix row assume row: "row \<in> set rows"
    have "even (count_list (generate_insert_statement row) quote)"
    proof (rule even_quotes_generated)
      fix k v assume "(k, v) \<in> set row"
      with a row show "quote \<notin> set k" by blast
    next
      fix k nz repr assume "(k, PFloat nz repr) \<in> set row"
      with a row show "quote \<notin> set repr" by blast
    qed
    then show "even (count_str (generate_insert_statement row) [quote])"
      by (simp only: count_str_single)
  qed
  have ls: "file_lines (join ''\<newline>'' (map generate_insert_statement rows) @ ''\<newline>'') =
      map (\<lambda>s. s @ [line_feed]) (map generate_insert_statement rows)"
  proof (rule file_lines_batch)
    fix s assume "s \<in> set (map generate_insert_statement rows)"
    with a show "line_feed \<notin> set s \<and> carriage_return \<notin> set s" by auto
  next
    from a show "map generate_insert_statement rows \<noteq> []" by simp
  qed
  show fx: "fix_sql_text (join ''\<newline>'' (map generate_insert_statement rows) @ ''\<newline>'') =
        join ''\<newline>'' (map generate_insert_statement rows) @ ''\<newline>''"
  proof (rule fix_sql_text_generated)
    fix row assume "row \<in> set rows"
    with a show "line_feed \<notin> set (generate_insert_statement row) \<and>
      carriage_return \<notin> set (generate_insert_statement row)" by blast
  next
    from a show "rows \<noteq> []" by simp
  qed
  show "fixed_validate_sql_file file_path
          (Reads (file_lines (fix_sql_text
             (join ''\<newline>'' (map generate_insert_statement rows) @ ''\<newline>'')))) =
        Inr (length rows, [])"
    using fixed_validate_generated [OF ev, of rows 1 0 "[]"]
    by (simp only: fx ls fixed_validate_sql_file_def opened.case add_0)
  show "migration_validate_sql_file
          (Reads (file_lines (join ''\<newline>'' (map generate_insert_statement rows) @ ''\<newline>''))) =
        Inr (length rows,
             concat (map (\<lambda>(i, s). if contains s two_empty_fields
                       then [''Line '' @ str_nat i @ '': Contains empty critical fields'']
                       else [])
                     (List.enumerate 1 (map generate_insert_statement rows))))"
    using migration_validate_generated [OF ev, of rows 1 0 "[]"]
    by (simp only: ls migration_validate_sql_file_def opened.case add_0 append_Nil)
qed

theorem generated_statement_even_quotes_witness:
  "generate_insert_statement [(''video_id'', PStr ''it's''), (''view_count'', PInt (- 5)),
        (''score'', PFloat True ''4.5''), (''published_at'', PNone)] =
     ''INSERT INTO videos (video_id, view_count, score, published_at) VALUES ('it''
       @ [quote, quote] @ ''s', -5, 4.5, NULL);'' \<and>
   even (count_str (generate_insert_statement [(''video_id'', PStr ''it's''),
        (''view_count'', PInt (- 5)), (''score'', PFloat True ''4.5''),
        (''published_at'', PNone)]) [quote]) \<and>
   transform_row [(''video_id'', PStr ''abc'')] = Inr
     [(''video_id'', PStr ''abc''), (''cleaned_title'', PStr []),
      (''cleaned_description'', PStr []), (''channel_name'', PStr []),
      (''channel_id'', PStr []), (''published_at'', PNone), (''duration_seconds'', PNone),
      (''view_count'', PNone), (''like_count'', PNone), (''comment_count'', PNone),
      (''is_indexed'', PInt 0), (''created_at'', PNone)] \<and>
   list_all (\<lambda>(k, v). quote \<notin> set k)
     [(''video_id'', PStr ''abc''), (''cleaned_title'', PStr []),
      (''cleaned_description'', PStr []), (''channel_name'', PStr []),
      (''channel_id'', PStr []), (''published_at'', PNone), (''duration_seconds'', PNone),
      (''view_count'', PNone), (''like_count'', PNone), (''comment_count'', PNone),
      (''is_indexed'', PInt 0), (''created_at'', PNone)] \<and>
   fixed_validate_sql_file ''db/mutations/insert_videos_migrated_fixed.sql''
     (Reads (file_lines (fix_sql_text (join ''\<newline>'' (map generate_insert_statement
        [[(''video_id'', PStr ''it's''), (''view_count'', PInt (- 5)),
          (''score'', PFloat True ''4.5''), (''published_at'', PNone)],
         [(''video_id'', PStr ''abc''), (''cleaned_title'', PStr []),
          (''cleaned_description'', PStr []), (''channel_name'', PStr []),
          (''channel_id'', PStr []), (''published_at'', PNone), (''duration_seconds'', PNone),
          (''view_count'', PNone), (''like_count'', PNone), (''comment_count'', PNone),
          (''is_indexed'', PInt 0), (''created_at'', PNone)]]) @ ''\<newline>'')))) =
     Inr (2, []) \<and>
   migration_validate_sql_file
     (Reads (file_lines (join ''\<newline>'' (map generate_insert_statement
        [[(''video_id'', PStr ''it's''), (''view_count'', PInt (- 5)),
          (''score'', PFloat True ''4.5''), (''published_at'', PNone)],
         [(''video_id'', PStr ''abc''), (''cleaned_title'', PStr []),
          (''cleaned_description'', PStr []), (''channel_name'', PStr []),
          (''channel_id'', PStr []), (''published_at'', PNone), (''duration_seconds'', PNone),
          (''view_count'', PNone), (''like_count'', PNone), (''comment_count'', PNone),
          (''is_indexed'', PInt 0), (''created_at'', PNone)]]) @ ''\<newline>''))) =
     Inr (2, [''Line 2: Contains empty critical fields''])"
proof -
  let ?row = "[(''video_id'', PStr ''it's''), (''view_count'', PInt (- 5)),
        (''score'', PFloat True ''4.5''), (''published_at'', PNone)]"
  let ?r = "[(''video_id'', PStr ''abc'')]"
  let ?t = "[(''video_id'', PStr ''abc''), (''cleaned_title'', PStr []),
      (''cleaned_description'', PStr []), (''channel_name'', PStr []),
      (''channel_id'', PStr []), (''published_at'', PNone), (''duration_seconds'', PNone),
      (''view_count'', PNone), (''like_count'', PNone), (''comment_count'', PNone),
      (''is_indexed'', PInt 0), (''created_at'', PNone)]"
  let ?H = "\<lambda>row :: row. \<forall>(k, v)\<in>set row.
      quote \<notin> set k \<and> (\<forall>nz repr. v = PFloat nz repr \<longrightarrow> quote \<notin> set repr)"
  note inst = generated_statement_even_quotes
      [of ?row ?r ?t "[?row, ?t]" "''db/mutations/insert_videos_migrated_fixed.sql''"]
  have h: "?H ?row" by (simp add: quote_def)
  have ht: "?H ?t" by (simp add: quote_def)
  have n: "line_feed \<notin> set (generate_insert_statement ?row)"
      "carriage_return \<notin> set (generate_insert_statement ?row)"
      "line_feed \<notin> set (generate_insert_statement ?t)"
      "carriage_return \<notin> set (generate_insert_statement ?t)"
    by code_simp+
  have rows: "[?row, ?t] \<noteq> [] \<and>
    (\<forall>row\<in>set [?row, ?t]. ?H row \<and>
       line_feed \<notin> set (generate_insert_statement row) \<and>
       carriage_return \<notin> set (generate_insert_statement row))"
    using h ht n by (simp only: list.set ball_simps insert_iff) blast
  have g: "generate_insert_statement ?row =
     ''INSERT INTO videos (video_id, view_count, score, published_at) VALUES ('it''
       @ [quote, quote] @ ''s', -5, 4.5, NULL);''"
    by code_simp
  have t: "transform_row ?r = Inr ?t"
    by code_simp
  from inst h have e: "even (count_str (generate_insert_statement ?row) [quote])" by blast
  from inst t have "\<forall>(k, v)\<in>set ?t. quote \<notin> set k" by blast
  then have k: "list_all (\<lambda>(k, v). quote \<notin> set k) ?t" by (simp only: list_all_iff)
  have v1: "Inr (length [?row, ?t], []) = (Inr (2, []) :: py_exception + nat \<times> string list)"
    by simp
  have v2: "Inr (length [?row, ?t],
             concat (map (\<lambda>(i, s). if contains s two_empty_fields
                       then [''Line '' @ str_nat i @ '': Contains empty critical fields'']
                       else [])
                     (List.enumerate 1 (map generate_insert_statement [?row, ?t])))) =
      (Inr (2, [''Line 2: Contains empty critical fields'']) :: py_exception + nat \<times> string list)"
    by code_simp
  from inst rows have
    f: "fixed_validate_sql_file ''db/mutations/insert_videos_migrated_fixed.sql''
          (Reads (file_lines (fix_sql_text
             (join ''\<newline>'' (map generate_insert_statement [?row, ?t]) @ ''\<newline>'')))) =
        Inr (length [?row, ?t], [])"
    and m: "migration_validate_sql_file
          (Reads (file_lines (join ''\<newline>'' (map generate_insert_statement [?row, ?t]) @ ''\<newline>''))) =
        Inr (length [?row, ?t],
             concat (map (\<lambda>(i, s). if contains s two_empty_fields
                       then [''Line '' @ str_nat i @ '': Contains empty critical fields'']
                       else [])
                     (List.enumerate 1 (map generate_insert_statement [?row, ?t]))))"
    by blast+
  from g e t k f [unfolded v1] m [unfolded v2] show ?thesis by (intro conjI)
qed

section \<open>Facts about the migration scripts\<close>

subsection \<open>\<open>execute_migration_batches.py\<close>\<close>

lemma ceil50: "(k < (n + 50 - 1) div 50) = (50 * k < (n::nat))"
  by linarith

lemma batch_loop_stop:
  "\<not> 50 * k < length stmts \<Longrightarrow> batch_loop wrangler stmts (50 * k) k = k"
  by (subst batch_loop.simps) simp

lemma batch_loop_fail:
  "50 * k < length stmts \<Longrightarrow>
   \<not> execute_batch (wrangler (join ''\<newline>'' (take 50 (drop (50 * k) stmts))) (k + 1)) \<Longrightarrow>
   batch_loop wrangler stmts (50 * k) k = k"
  by (subst batch_loop.simps) (simp add: Let_def)

lemma batch_loop_next:
  "50 * k < length stmts \<Longrightarrow>
   execute_batch (wrangler (join ''\<newline>'' (take 50 (drop (50 * k) stmts))) (k + 1)) \<Longrightarrow>
   batch_loop wrangler stmts (50 * k) k = batch_loop wrangler stmts (50 * Suc k) (Suc k)"
  by (subst batch_loop.simps [of wrangler stmts "50 * k"]) (simp add: Let_def add.commute)

lemma batch_loop_all:
  assumes "k \<le> (length stmts + 50 - 1) div 50"
  shows "(batch_loop wrangler stmts (50 * k) k = (length stmts + 50 - 1) div 50) =
         (\<forall>j. k \<le> j \<and> j < (length stmts + 50 - 1) div 50 \<longrightarrow>
              execute_batch (wrangler (join ''\<newline>'' (take 50 (drop (50 * j) stmts))) (j + 1)))"
  using assms
proof (induction d \<equiv> "(length stmts + 50 - 1) div 50 - k" arbitrary: k)
  case 0
  then have k: "k = (length stmts + 50 - 1) div 50" by simp
  then have "\<not> k < (length stmts + 50 - 1) div 50" by simp
  then have "\<not> 50 * k < length stmts" using ceil50 [of k "length stmts"] by blast
  then have "batch_loop wrangler stmts (50 * k) k = k" by (rule batch_loop_stop)
  with k show ?case by auto
next
  case (Suc d)
  define T where "T = (length stmts + 50 - 1) div 50"
  define ok where "ok = (\<lambda>j. execute_batch
      (wrangler (join ''\<newline>'' (take 50 (drop (50 * j) stmts))) (j + 1)))"
  from Suc.hyps(2) have kT: "k < T" by (simp add: T_def)
  then have lt: "50 * k < length stmts" using ceil50 [of k "length stmts"] by (simp add: T_def)
  show ?case
    unfolding T_def [symmetric]
  proof (cases "ok k")
    case True
    have step: "batch_loop wrangler stmts (50 * k) k = batch_loop wrangler stmts (50 * Suc k) (Suc k)"
      using lt True unfolding ok_def by (rule batch_loop_next)
    have "d = (length stmts + 50 - 1) div 50 - Suc k" using Suc.hyps(2) by simp
    moreover have "Suc k \<le> (length stmts + 50 - 1) div 50" using kT by (simp add: T_def)
    ultimately have ih: "(batch_loop wrangler stmts (50 * Suc k) (Suc k) = T) =
        (\<forall>j. Suc k \<le> j \<and> j < T \<longrightarrow> ok j)"
      unfolding T_def ok_def by (rule Suc.hyps(1))
    have "(\<forall>j. Suc k \<le> j \<and> j < T \<longrightarrow> ok j) = (\<forall>j. k \<le> j \<and> j < T \<longrightarrow> ok j)"
    proof
      assume a: "\<forall>j. Suc k \<le> j \<and> j < T \<longrightarrow> ok j"
      show "\<forall>j. k \<le> j \<and> j < T \<longrightarrow> ok j"
      proof (intro allI impI)
        fix j assume j: "k \<le> j \<and> j < T"
        show "ok j"
        proof (cases "j = k")
          case True
          with \<open>ok k\<close> show ?thesis by simp
        next
          case False
          with j have "Suc k \<le> j \<and> j < T" by simp
          with a show ?thesis by blast
        qed
      qed
    next
      assume "\<forall>j. k \<le> j \<and> j < T \<longrightarrow> ok j"
      then show "\<forall>j. Suc k \<le> j \<and> j < T \<longrightarrow> ok j" by simp
    qed
    with ih step show "(batch_loop wrangler stmts (50 * k) k = T) =
        (\<forall>j. k \<le> j \<and> j < T \<longrightarrow>
          execute_batch (wrangler (join ''\<newline>'' (take 50 (drop (50 * j) stmts))) (j + 1)))"
      by (simp add: ok_def)
  next
    case False
    have "batch_loop wrangler stmts (50 * k) k = k"
      using lt False unfolding ok_def by (rule batch_loop_fail)
    moreover have "\<not> (\<forall>j. k \<le> j \<and> j < T \<longrightarrow> ok j)"
      using False kT by blast
    ultimately show "(batch_loop wrangler stmts (50 * k) k = T) =
        (\<forall>j. k \<le> j \<and> j < T \<longrightarrow>
          execute_batch (wrangler (join ''\<newline>'' (take 50 (drop (50 * j) stmts))) (j + 1)))"
      using kT by (simp add: ok_def)
  qed
qed

lemma batches_exit_code_eq:
  "batches_exit_code wrangler (Reads content) =
     (if \<forall>j < (length (batch_statements content) + 50 - 1) div 50.
           execute_batch (wrangler
             (join ''\<newline>'' (take 50 (drop (50 * j) (batch_statements content)))) (j + 1))
      then 0 else 1)"
  using batch_loop_all [of 0 "batch_statements content" wrangler]
  by (simp add: batches_exit_code_def batches_main_def Let_def)

subsection \<open>\<open>migrate_videos_rest_api.py\<close>\<close>

lemma insert_video_batch_failed:
  "fst (snd (insert_video_batch vs (a, b, c))) =
     b + length (filter (\<lambda>(row, ex, resp).
           \<not> ex \<and> (case resp of Status code \<Rightarrow> code \<notin> {200, 201} | PostRaises \<Rightarrow> True)) vs)"
proof (induction vs arbitrary: a b c)
  case Nil
  show ?case by simp
next
  case (Cons v vs)
  obtain row ex resp where v: "v = (row, ex, resp)" by (cases v)
  show ?case
  proof (cases ex)
    case True
    with v show ?thesis using Cons.IH [of a b "c + 1"] by simp
  next
    case False
    show ?thesis
    proof (cases resp)
      case (Status code)
      with v False show ?thesis
        using Cons.IH [of "a + 1" b c] Cons.IH [of a "b + 1" c] by simp
    next
      case PostRaises
      with v False show ?thesis using Cons.IH [of a "b + 1" c] by simp
    qed
  qed
qed

lemma not_video_ok_count:
  "length (filter (\<lambda>v. \<not> video_ok v) batch) =
     length (filter (\<lambda>(row, answers). \<not> rest_validate_row row) batch) +
     length (filter (\<lambda>(row, ex, resp).
           \<not> ex \<and> (case resp of Status code \<Rightarrow> code \<notin> {200, 201} | PostRaises \<Rightarrow> True))
        (filter (\<lambda>(row, answers). rest_validate_row row) batch))"
proof (induction batch)
  case Nil
  show ?case by simp
next
  case (Cons v batch)
  obtain row ex resp where v: "v = (row, ex, resp)" by (cases v)
  show ?case
    unfolding v using Cons.IH by (cases resp) auto
qed

lemma process_batch_failed:
  "failed (process_batch batch st) = failed st + length (filter (\<lambda>v. \<not> video_ok v) batch)"
proof (cases "filter (\<lambda>(row, answers). rest_validate_row row) batch = []")
  case True
  then show ?thesis
    by (simp add: process_batch_def Let_def not_video_ok_count)
next
  case False
  let ?valid = "filter (\<lambda>(row, answers). rest_validate_row row) batch"
  obtain a b c where r: "insert_video_batch ?valid (0, 0, skipped st) = (a, b, c)"
    by (cases "insert_video_batch ?valid (0, 0, skipped st)")
  have "b = fst (snd (insert_video_batch ?valid (0, 0, skipped st)))" by (simp add: r)
  then have b: "b = length (filter (\<lambda>(row, ex, resp).
           \<not> ex \<and> (case resp of Status code \<Rightarrow> code \<notin> {200, 201} | PostRaises \<Rightarrow> True)) ?valid)"
    by (simp only: insert_video_batch_failed add_0)
  from False r show ?thesis
    by (simp add: process_batch_def Let_def not_video_ok_count b)
qed

lemma rest_loop_failed:
  "failed (rest_loop bs vs i st) =
     (if 0 < bs then failed st + length (filter (\<lambda>v. \<not> video_ok v) (drop i vs)) else failed st)"
proof (induction bs vs i st rule: rest_loop.induct)
  case (1 bs vs i st)
  show ?case
  proof (cases "0 < bs \<and> i < length vs")
    case True
    have "drop bs (drop i vs) = drop (i + bs) vs"
      by (simp add: add.commute)
    then have "drop i vs = take bs (drop i vs) @ drop (i + bs) vs"
      by (metis append_take_drop_id)
    then have "length (filter (\<lambda>v. \<not> video_ok v) (drop i vs)) =
        length (filter (\<lambda>v. \<not> video_ok v) (take bs (drop i vs))) +
        length (filter (\<lambda>v. \<not> video_ok v) (drop (i + bs) vs))"
      by (metis filter_append length_append)
    with True 1 show ?thesis
      by (subst rest_loop.simps) (simp add: process_batch_failed)
  next
    case False
    then show ?thesis
      by (subst rest_loop.simps) auto
  qed
qed

lemma rest_exit_code_eq:
  assumes "0 < batch_size"
  shows "rest_exit_code batch_size (Reads videos) =
     (if \<forall>v\<in>set videos. video_ok v then 0 else 1)"
proof (cases "videos = []")
  case True
  then show ?thesis by (simp add: rest_exit_code_def rest_migrate_def)
next
  case False
  have "(length (filter (\<lambda>v. \<not> video_ok v) videos) > 0) = (\<not> (\<forall>v\<in>set videos. video_ok v))"
    by (auto simp: filter_empty_conv)
  with False assms show ?thesis
    by (simp add: rest_exit_code_def rest_migrate_def Let_def rest_loop_failed)
qed

lemma rest_exit_code_nonpositive:
  "batch_size < 0 \<Longrightarrow> rest_exit_code batch_size (Reads videos) = 0"
  "videos \<noteq> [] \<Longrightarrow> rest_exit_code 0 (Reads videos) = 1"
  by (simp_all add: rest_exit_code_def rest_migrate_def Let_def)

subsection \<open>\<open>migrate_videos_to_d1.py\<close>\<close>

lemma validate_row_video_id:
  "fst (validate_row r) \<Longrightarrow> \<exists>v. dict_item r ''video_id'' = Inr v"
  by (auto simp: validate_row_def dict_get_def dict_item_def split: option.splits if_splits)

lemma transform_row_total: "fst (validate_row r) \<Longrightarrow> \<exists>t. transform_row r = Inr t"
  by (auto simp: transform_row_def dest!: validate_row_video_id)

lemma write_batch_cases:
  "write_batch (Some e) outf stmts = Inl e"
  "\<exists>file1. write_batch None outf stmts = Inr file1"
  by (simp_all add: write_batch_def)

lemma migrate_loop_invalid:
  "\<not> fst (validate_row r) \<Longrightarrow>
   migrate_loop fs bs (r # rows) (s, f, st, er, outf, w) =
   migrate_loop fs bs rows
     (s, f + 1, st, er @ [(dict_get r ''video_id'' (PStr ''UNKNOWN''), snd (validate_row r))], outf, w)"
  by (cases "validate_row r") simp

lemma migrate_loop_valid:
  assumes "fst (validate_row r)"
  shows "\<exists>t. transform_row r = Inr t \<and>
    migrate_loop fs bs (r # rows) (s, f, st, er, outf, w) =
      (if int (length (st @ [generate_insert_statement t])) \<ge> bs
       then (case write_batch (fs w) outf (st @ [generate_insert_statement t]) of
               Inl e \<Rightarrow> Inl e
             | Inr file1 \<Rightarrow> migrate_loop fs bs rows (s + 1, f, [], er, file1, w + 1))
       else migrate_loop fs bs rows (s + 1, f, st @ [generate_insert_statement t], er, outf, w))"
proof -
  from assms obtain t where t: "transform_row r = Inr t"
    using transform_row_total by blast
  from assms obtain msg where "validate_row r = (True, msg)"
    by (cases "validate_row r") auto
  with t show ?thesis by (simp add: Let_def)
qed

lemma migrate_loop_failed:
  "migrate_loop fs bs rows (s, f, st, er, outf, w) = Inr (s1, f1, st1, er1, outf1, w1) \<Longrightarrow>
   f1 = f + length (filter (\<lambda>r. \<not> fst (validate_row r)) rows)"
proof (induction rows arbitrary: s f st er outf w)
  case Nil
  then show ?case by simp
next
  case (Cons r rows)
  show ?case
  proof (cases "fst (validate_row r)")
    case False
    have "migrate_loop fs bs rows
       (s, f + 1, st, er @ [(dict_get r ''video_id'' (PStr ''UNKNOWN''), snd (validate_row r))],
        outf, w) = Inr (s1, f1, st1, er1, outf1, w1)"
      using migrate_loop_invalid [OF False, of fs bs rows s f st er outf w, symmetric] Cons.prems
      by (rule trans)
    then have "f1 = f + 1 + length (filter (\<lambda>r. \<not> fst (validate_row r)) rows)"
      by (rule Cons.IH)
    with False show ?thesis by simp
  next
    case True
    then obtain t where step: "migrate_loop fs bs (r # rows) (s, f, st, er, outf, w) =
      (if int (length (st @ [generate_insert_statement t])) \<ge> bs
       then (case write_batch (fs w) outf (st @ [generate_insert_statement t]) of
               Inl e \<Rightarrow> Inl e
             | Inr file1 \<Rightarrow> migrate_loop fs bs rows (s + 1, f, [], er, file1, w + 1))
       else migrate_loop fs bs rows (s + 1, f, st @ [generate_insert_statement t], er, outf, w))"
      using migrate_loop_valid [of r fs bs rows s f st er outf w] by blast
    show ?thesis
    proof (cases "int (length (st @ [generate_insert_statement t])) \<ge> bs")
      case big: True
      show ?thesis
      proof (cases "write_batch (fs w) outf (st @ [generate_insert_statement t])")
        case (Inl e)
        with step big Cons.prems show ?thesis by simp
      next
        case (Inr file1)
        with step big Cons.prems have
          "migrate_loop fs bs rows (s + 1, f, [], er, file1, w + 1) = Inr (s1, f1, st1, er1, outf1, w1)"
          by simp
        then have "f1 = f + length (filter (\<lambda>r. \<not> fst (validate_row r)) rows)"
          by (rule Cons.IH)
        with True show ?thesis by simp
      qed
    next
      case small: False
      with step Cons.prems have
        "migrate_loop fs bs rows (s + 1, f, st @ [generate_insert_statement t], er, outf, w) =
           Inr (s1, f1, st1, er1, outf1, w1)"
        by simp
      then have "f1 = f + length (filter (\<lambda>r. \<not> fst (validate_row r)) rows)"
        by (rule Cons.IH)
      with True show ?thesis by simp
    qed
  qed
qed

lemma migrate_loop_all_valid:
  assumes "\<forall>r\<in>set rows. fst (validate_row r)" and "length st < 100"
  shows "(\<exists>e k. migrate_loop fs 100 rows (s, f, st, er, outf, w) = Inl e \<and>
            w \<le> k \<and> k < w + (length st + length rows) div 100 \<and> fs k \<noteq> None) \<or>
         (\<exists>st1 er1 outf1.
            migrate_loop fs 100 rows (s, f, st, er, outf, w) =
              Inr (s + length rows, f, st1, er1, outf1, w + (length st + length rows) div 100) \<and>
            length st1 = (length st + length rows) mod 100 \<and>
            (\<forall>k. w \<le> k \<and> k < w + (length st + length rows) div 100 \<longrightarrow> fs k = None))"
  using assms
proof (induction rows arbitrary: s st er outf w)
  case Nil
  then show ?case by auto
next
  case (Cons r rows)
  let ?n = "length rows"
  let ?p = "length st"
  from Cons.prems(1) have valid: "fst (validate_row r)"
    and rest: "\<forall>r\<in>set rows. fst (validate_row r)" by simp_all
  from valid obtain t where step: "migrate_loop fs 100 (r # rows) (s, f, st, er, outf, w) =
      (if int (length (st @ [generate_insert_statement t])) \<ge> 100
       then (case write_batch (fs w) outf (st @ [generate_insert_statement t]) of
               Inl e \<Rightarrow> Inl e
             | Inr file1 \<Rightarrow> migrate_loop fs 100 rows (s + 1, f, [], er, file1, w + 1))
       else migrate_loop fs 100 rows (s + 1, f, st @ [generate_insert_statement t], er, outf, w))"
    using migrate_loop_valid [of r fs 100 rows s f st er outf w] by blast
  let ?st1 = "st @ [generate_insert_statement t]"
  show ?case
  proof (cases "int (length ?st1) \<ge> 100")
    case False
    then have small: "length ?st1 < 100" by simp
    have eq: "migrate_loop fs 100 (r # rows) (s, f, st, er, outf, w) =
        migrate_loop fs 100 rows (s + 1, f, ?st1, er, outf, w)"
      using step False by (simp only: if_False)
    have sum: "length ?st1 + ?n = ?p + length (r # rows)" by simp
    have cnt: "s + 1 + ?n = s + length (r # rows)" by simp
    from Cons.IH [OF rest small, of "s + 1" er outf w]
    show ?thesis unfolding eq sum cnt .
  next
    case True
    with Cons.prems(2) have p: "?p = 99" by simp
    have d: "(?p + length (r # rows)) div 100 = 1 + ?n div 100"
      and m: "(?p + length (r # rows)) mod 100 = ?n mod 100"
      using p by simp_all
    show ?thesis
    proof (cases "fs w")
      case (Some e)
      have "migrate_loop fs 100 (r # rows) (s, f, st, er, outf, w) = Inl e"
        using step True Some by (simp add: write_batch_cases(1))
      moreover have "w \<le> w \<and> w < w + (?p + length (r # rows)) div 100 \<and> fs w \<noteq> None"
        using Some d by simp
      ultimately show ?thesis by blast
    next
      case None
      obtain file1 where wb: "write_batch None outf ?st1 = Inr file1"
        using write_batch_cases(2) by blast
      have eq: "migrate_loop fs 100 (r # rows) (s, f, st, er, outf, w) =
          migrate_loop fs 100 rows (s + 1, f, [], er, file1, w + 1)"
        using step True None wb by simp
      have empty: "length ([] :: string list) < 100" by simp
      from Cons.IH [OF rest empty, of "s + 1" er file1 "w + 1"]
      show ?thesis
      proof
        assume "\<exists>e k. migrate_loop fs 100 rows (s + 1, f, [], er, file1, w + 1) = Inl e \<and>
            w + 1 \<le> k \<and> k < w + 1 + (length ([] :: string list) + ?n) div 100 \<and> fs k \<noteq> None"
        then obtain e k where "migrate_loop fs 100 rows (s + 1, f, [], er, file1, w + 1) = Inl e"
          and "w + 1 \<le> k" and "k < w + 1 + ?n div 100" and "fs k \<noteq> None" by auto
        then have "migrate_loop fs 100 (r # rows) (s, f, st, er, outf, w) = Inl e \<and>
            w \<le> k \<and> k < w + (?p + length (r # rows)) div 100 \<and> fs k \<noteq> None"
          using eq d by simp
        then show ?thesis by blast
      next
        assume "\<exists>st1 er1 outf1.
            migrate_loop fs 100 rows (s + 1, f, [], er, file1, w + 1) =
              Inr (s + 1 + ?n, f, st1, er1, outf1,
                   w + 1 + (length ([] :: string list) + ?n) div 100) \<and>
            length st1 = (length ([] :: string list) + ?n) mod 100 \<and>
            (\<forall>k. w + 1 \<le> k \<and> k < w + 1 + (length ([] :: string list) + ?n) div 100
                \<longrightarrow> fs k = None)"
        then obtain st1 er1 outf1 where
          r1: "migrate_loop fs 100 rows (s + 1, f, [], er, file1, w + 1) =
              Inr (s + 1 + ?n, f, st1, er1, outf1, w + 1 + ?n div 100)"
          and r2: "length st1 = ?n mod 100"
          and r3: "\<forall>k. w + 1 \<le> k \<and> k < w + 1 + ?n div 100 \<longrightarrow> fs k = None"
          by auto
        have a: "migrate_loop fs 100 (r # rows) (s, f, st, er, outf, w) =
            Inr (s + length (r # rows), f, st1, er1, outf1,
                 w + (?p + length (r # rows)) div 100)"
          using eq r1 d by simp
        have b: "length st1 = (?p + length (r # rows)) mod 100"
          using r2 m by simp
        have c: "\<forall>k. w \<le> k \<and> k < w + (?p + length (r # rows)) div 100 \<longrightarrow> fs k = None"
        proof (intro allI impI)
          fix k assume k: "w \<le> k \<and> k < w + (?p + length (r # rows)) div 100"
          show "fs k = None"
          proof (cases "k = w")
            case True
            with None show ?thesis by simp
          next
            case False
            with k d have "w + 1 \<le> k \<and> k < w + 1 + ?n div 100" by simp
            with r3 show ?thesis by blast
          qed
        qed
        from a b c show ?thesis by blast
      qed
    qed
  qed
qed

lemma d1_exit_code_raises: "d1_exit_code fs (Raises e) outf = 1"
  by (simp add: d1_exit_code_def migrate_def)

lemma d1_exit_code_invalid:
  assumes "\<not> (\<forall>r\<in>set rows. fst (validate_row r))"
  shows "d1_exit_code fs (Reads rows) outf = 1"
proof (cases "migrate_loop fs 100 rows (0, 0, [], [], outf, 0)")
  case (Inl e)
  then show ?thesis by (simp add: d1_exit_code_def migrate_def)
next
  case (Inr state)
  obtain s1 f1 st1 er1 outf1 w1 where state: "state = (s1, f1, st1, er1, outf1, w1)"
    by (cases state)
  from Inr state have "f1 = 0 + length (filter (\<lambda>r. \<not> fst (validate_row r)) rows)"
    using migrate_loop_failed [of fs 100 rows 0 0 "[]" "[]" outf 0 s1 f1 st1 er1 outf1 w1]
    by simp
  moreover from assms have "length (filter (\<lambda>r. \<not> fst (validate_row r)) rows) > 0"
    by (auto simp: filter_empty_conv)
  ultimately have f1: "f1 > 0" by simp
  show ?thesis
  proof (cases "st1 \<noteq> []")
    case True
    show ?thesis
    proof (cases "write_batch (fs w1) outf1 st1")
      case (Inl e)
      with Inr state True show ?thesis by (simp add: d1_exit_code_def migrate_def)
    next
      case (Inr file2)
      with \<open>migrate_loop fs 100 rows (0, 0, [], [], outf, 0) = Inr state\<close> state True f1
      show ?thesis by (simp add: d1_exit_code_def migrate_def)
    qed
  next
    case False
    with Inr state f1 show ?thesis by (simp add: d1_exit_code_def migrate_def)
  qed
qed

lemma ceil100:
  "(n + 100 - 1) div 100 = (if n mod 100 = 0 then n div 100 else n div 100 + 1)" for n :: nat
proof -
  define q where "q = n div 100"
  define r where "r = n mod 100"
  have n: "n = 100 * q + r" by (simp add: q_def r_def)
  have m: "r < 100" by (simp add: r_def)
  have "(n + 100 - 1) div 100 = (if r = 0 then q else q + 1)"
  proof (cases "r = 0")
    case True
    have "(n + 100 - 1) div 100 = q"
    proof (rule div_nat_eqI)
      show "100 * q \<le> n + 100 - 1" unfolding n by simp
      show "n + 100 - 1 < 100 * Suc q" unfolding n using True by simp
    qed
    with True show ?thesis by simp
  next
    case False
    have "(n + 100 - 1) div 100 = q + 1"
    proof (rule div_nat_eqI)
      show "100 * (q + 1) \<le> n + 100 - 1" unfolding n using False by simp
      show "n + 100 - 1 < 100 * Suc (q + 1)" unfolding n using m by simp
    qed
    with False show ?thesis by simp
  qed
  then show ?thesis by (simp only: q_def r_def)
qed

lemma d1_exit_code_valid:
  assumes "\<forall>r\<in>set rows. fst (validate_row r)"
  shows "d1_exit_code fs (Reads rows) outf =
     (if \<forall>k < (length rows + 100 - 1) div 100. fs k = None then 0 else 1)"
proof -
  define q where "q = length rows div 100"
  define r where "r = length rows mod 100"
  have T: "(length rows + 100 - 1) div 100 = (if r = 0 then q else q + 1)"
    unfolding q_def r_def by (rule ceil100)
  have empty: "length ([] :: string list) < 100" by simp
  have z: "(length ([] :: string list) + length rows) div 100 = q"
    "(length ([] :: string list) + length rows) mod 100 = r"
    by (simp_all only: q_def r_def list.size add_0)
  note av = migrate_loop_all_valid [OF assms empty, of fs 0 0 "[]" outf 0, unfolded z add_0]
  show ?thesis
    unfolding T
  proof (rule disjE [OF av])
    assume "\<exists>e k. migrate_loop fs 100 rows (0, 0, [], [], outf, 0) = Inl e \<and>
        0 \<le> k \<and> k < q \<and> fs k \<noteq> None"
    then obtain e k where l: "migrate_loop fs 100 rows (0, 0, [], [], outf, 0) = Inl e"
      and k: "k < q" "fs k \<noteq> None" by blast
    from k(1) have "k < (if r = 0 then q else q + 1)" by simp
    with k(2) have "\<not> (\<forall>k < (if r = 0 then q else q + 1). fs k = None)" by auto
    moreover have "d1_exit_code fs (Reads rows) outf = 1"
      by (simp add: d1_exit_code_def migrate_def l)
    ultimately show "d1_exit_code fs (Reads rows) outf =
        (if \<forall>k < (if r = 0 then q else q + 1). fs k = None then 0 else 1)"
      by (simp only: if_False)
  next
    assume "\<exists>st1 er1 outf1.
        migrate_loop fs 100 rows (0, 0, [], [], outf, 0) =
          Inr (length rows, 0, st1, er1, outf1, q) \<and>
        length st1 = r \<and> (\<forall>k. 0 \<le> k \<and> k < q \<longrightarrow> fs k = None)"
    then obtain st1 er1 outf1 where
      l: "migrate_loop fs 100 rows (0, 0, [], [], outf, 0) =
            Inr (length rows, 0, st1, er1, outf1, q)"
      and len: "length st1 = r"
      and before: "\<forall>k. 0 \<le> k \<and> k < q \<longrightarrow> fs k = None"
      by blast
    show "d1_exit_code fs (Reads rows) outf =
        (if \<forall>k < (if r = 0 then q else q + 1). fs k = None then 0 else 1)"
    proof (cases "st1 = []")
      case True
      with len have r0: "r = 0" by simp
      have "\<forall>k < (if r = 0 then q else q + 1). fs k = None"
        using before r0 by simp
      moreover have "d1_exit_code fs (Reads rows) outf = 0"
        by (simp add: d1_exit_code_def migrate_def l True)
      ultimately show ?thesis by simp
    next
      case False
      with len have r0: "r \<noteq> 0" by auto
      show ?thesis
      proof (cases "fs q")
        case (Some e)
        have "q < (if r = 0 then q else q + 1)" using r0 by simp
        with Some have "\<not> (\<forall>k < (if r = 0 then q else q + 1). fs k = None)"
          by auto
        moreover have "d1_exit_code fs (Reads rows) outf = 1"
          by (simp add: d1_exit_code_def migrate_def l False Some write_batch_cases(1))
        ultimately show ?thesis by simp
      next
        case None
        obtain file2 where wb: "write_batch None outf1 st1 = Inr file2"
          using write_batch_cases(2) by blast
        have "\<forall>k < (if r = 0 then q else q + 1). fs k = None"
        proof (intro allI impI)
          fix k assume "k < (if r = 0 then q else q + 1)"
          with r0 have "k < q \<or> k = q" by auto
          with before None show "fs k = None" by auto
        qed
        moreover have "d1_exit_code fs (Reads rows) outf = 0"
          by (simp add: d1_exit_code_def migrate_def l False None wb)
        ultimately show ?thesis by simp
      qed
    qed
  qed
qed

lemma d1_exit_code_eq:
  "d1_exit_code fs (Reads rows) outf =
     (if (\<forall>r\<in>set rows. fst (validate_row r)) \<and>
         (\<forall>k < (length rows + 100 - 1) div 100. fs k = None)
      then 0 else 1)"
proof (cases "\<forall>r\<in>set rows. fst (validate_row r)")
  case True
  then show ?thesis using d1_exit_code_valid [OF True, of fs outf] by simp
next
  case False
  then show ?thesis using d1_exit_code_invalid [OF False, of fs outf] by simp
qed

lemma execute_batch_iff: "execute_batch result = (result = Returncode 0)"
  by (cases result) (simp_all add: execute_batch_def)

lemma batches_exit_code_raises: "batches_exit_code wrangler (Raises e) = 1"
  by (simp add: batches_exit_code_def)

lemma rest_exit_code_raises: "rest_exit_code batch_size (Raises e) = 1"
  by (simp add: rest_exit_code_def)

lemma rest_exit_code_all:
  "rest_exit_code batch_size (Reads videos) =
     (if videos = [] then 0
      else if batch_size = 0 then 1
      else if batch_size < 0 then 0
      else if \<forall>v\<in>set videos. video_ok v then 0 else 1)"
proof (cases "0 < batch_size")
  case True
  then show ?thesis using rest_exit_code_eq [OF True, of videos] by auto
next
  case False
  then show ?thesis
    by (auto simp: rest_exit_code_def rest_migrate_def Let_def)
qed

section \<open>The claim about the exit codes\<close>

text \<open>
  C9. Each of the three migration scripts ends with exit code 0 when every row or batch
  it handled succeeded and nothing raised, and with 1 otherwise.
  \<open>migrate_videos_to_d1.py\<close>: 0 exactly when the rows could be read, every row passes
  \<open>validate_row\<close> and every call of \<open>_write_batch\<close>, one for each hundred rows begun, goes
  through. \<open>execute_migration_batches.py\<close>: 0 exactly when the file could be read and the
  command returned 0 for every batch of fifty statements.
  \<open>migrate_videos_rest_api.py\<close>: 0 exactly when the videos could be fetched and every
  video is valid and was inserted with status 200 or 201 or found present; the script
  takes its batch size from the command line, and there \<open>range\<close> raises for the step 0
  and yields no batch at all, so that no video is handled, for a negative step.
\<close>

theorem exit_code_reports_failure:
  "d1_exit_code fs (Raises e) outf = 1 \<and>
   d1_exit_code fs (Reads rows) outf =
     (if (\<forall>r\<in>set rows. fst (validate_row r)) \<and>
         (\<forall>k < (length rows + 100 - 1) div 100. fs k = None)
      then 0 else 1) \<and>
   batches_exit_code wrangler (Raises e) = 1 \<and>
   batches_exit_code wrangler (Reads content) =
     (if \<forall>j < (length (batch_statements content) + 50 - 1) div 50.
           wrangler (join ''\<newline>'' (take 50 (drop (50 * j) (batch_statements content))))
             (j + 1) = Returncode 0
      then 0 else 1) \<and>
   rest_exit_code batch_size (Raises e) = 1 \<and>
   rest_exit_code batch_size (Reads videos) =
     (if videos = [] then 0
      else if batch_size = 0 then 1
      else if batch_size < 0 then 0
      else if \<forall>v\<in>set videos. video_ok v then 0 else 1)"
  using d1_exit_code_raises [of fs e outf] d1_exit_code_eq [of fs rows outf]
    batches_exit_code_raises [of wrangler e] batches_exit_code_eq [of wrangler content]
    rest_exit_code_raises [of batch_size e] rest_exit_code_all [of batch_size videos]
  by (simp only: execute_batch_iff simp_thms)

theorem exit_code_reports_failure_witness:
  "d1_exit_code no_failure (Reads [[(''video_id'', PStr ''a'')]]) None = 0 \<and>
   d1_exit_code missing_directory (Reads [[(''video_id'', PStr ''a'')]]) None = 1 \<and>
   d1_exit_code no_failure
     (Reads [[(''video_id'', PStr ''a'')],
             [(''video_id'', PStr ''b''), (''view_count'', PStr ''many'')]]) None = 1 \<and>
   batches_exit_code wrangler_accepts
     (Reads ''INSERT OR IGNORE INTO videos (a) VALUES (1);'') = 0 \<and>
   rest_exit_code 25 (Reads [([(''video_id'', PStr ''a'')], False, Status 201),
                             ([(''video_id'', PStr ''b'')], True, PostRaises)]) = 0"
proof -
  let ?valid = "[[(''video_id'', PStr ''a'')]]"
  let ?rows = "[[(''video_id'', PStr ''a'')],
                [(''video_id'', PStr ''b''), (''view_count'', PStr ''many'')]]"
  let ?content = "''INSERT OR IGNORE INTO videos (a) VALUES (1);''"
  let ?videos = "[([(''video_id'', PStr ''a'')], False, Status 201),
                  ([(''video_id'', PStr ''b'')], True, PostRaises)]"
  note ok = exit_code_reports_failure
      [of no_failure PermissionError None ?valid wrangler_accepts ?content 25 ?videos]
  note missing = exit_code_reports_failure
      [of missing_directory PermissionError None ?valid wrangler_accepts ?content 25 ?videos]
  note bad = exit_code_reports_failure
      [of no_failure PermissionError None ?rows wrangler_accepts ?content 25 ?videos]
  have valid: "\<forall>r\<in>set ?valid. fst (validate_row r)" by code_simp
  have invalid: "\<not> fst (validate_row [(''video_id'', PStr ''b''), (''view_count'', PStr ''many'')])"
    by code_simp
  have writes: "\<forall>k < (length ?valid + 100 - 1) div 100. no_failure k = None"
    by (simp add: no_failure_def)
  have count: "(length ?valid + 100 - 1) div 100 = 1" by simp
  have fails: "\<not> (\<forall>k < (length ?valid + 100 - 1) div 100. missing_directory k = None)"
    unfolding count by (simp add: missing_directory_def)
  have batches: "\<forall>j < (length (batch_statements ?content) + 50 - 1) div 50.
      wrangler_accepts (join ''\<newline>'' (take 50 (drop (50 * j) (batch_statements ?content))))
        (j + 1) = Returncode 0"
    by (simp add: wrangler_accepts_def)
  have videos: "?videos \<noteq> [] \<and> (25 :: int) \<noteq> 0 \<and> \<not> (25 :: int) < 0 \<and>
      (\<forall>v\<in>set ?videos. video_ok v)"
    by code_simp
  note ok2 = ok [THEN conjunct2, THEN conjunct1]
  note missing2 = missing [THEN conjunct2, THEN conjunct1]
  note bad2 = bad [THEN conjunct2, THEN conjunct1]
  note ok4 = ok [THEN conjunct2, THEN conjunct2, THEN conjunct2, THEN conjunct1]
  note ok6 = ok [THEN conjunct2, THEN conjunct2, THEN conjunct2, THEN conjunct2, THEN conjunct2]
  from ok2 valid writes have a: "d1_exit_code no_failure (Reads ?valid) None = 0" by simp
  from missing2 fails have b: "d1_exit_code missing_directory (Reads ?valid) None = 1"
    by simp
  from bad2 invalid have c: "d1_exit_code no_failure (Reads ?rows) None = 1" by simp
  from ok4 batches have d: "batches_exit_code wrangler_accepts (Reads ?content) = 0"
    by simp
  from ok6 videos have e: "rest_exit_code 25 (Reads ?videos) = 0" by simp
  from a b c d e show ?thesis by (intro conjI)
qed

end
